theory Spec2Isabelle
  imports Main "HOL-Library.Sublist"
begin

section \<open>Go strings\<close>

text \<open>
  A Go \<open>string\<close> is a sequence of bytes, and so is a HOL \<open>string\<close>: indexing, slicing
  and \<open>len\<close> count bytes on both sides. The functions of package \<open>strings\<close> that the
  program calls are written out here with their Go meaning.
\<close>

definition HasPrefix :: "string \<Rightarrow> string \<Rightarrow> bool" where
  "HasPrefix s pre = prefix pre s"

definition HasSuffix :: "string \<Rightarrow> string \<Rightarrow> bool" where
  "HasSuffix s suf = suffix suf s"

text \<open>\<open>strings.Index\<close>: the byte offset of the first occurrence, \<open>-1\<close> when there is none.\<close>

fun Index :: "string \<Rightarrow> string \<Rightarrow> int" where
  "Index [] sub = (if sub = [] then 0 else - 1)"
| "Index (c # cs) sub =
     (if prefix sub (c # cs) then 0
      else (let r = Index cs sub in if r < 0 then - 1 else r + 1))"

definition Contains :: "string \<Rightarrow> string \<Rightarrow> bool" where
  "Contains s sub = (0 \<le> Index s sub)"

definition TrimPrefix :: "string \<Rightarrow> string \<Rightarrow> string" where
  "TrimPrefix s pre = (if HasPrefix s pre then drop (length pre) s else s)"

text \<open>
  \<open>strings.Split\<close> for a separator of one byte, the only kind the program uses. The
  result is never empty: \<open>Split "" sep\<close> is the list holding the empty string.
\<close>

fun Split :: "string \<Rightarrow> char \<Rightarrow> string list" where
  "Split [] sep = [[]]"
| "Split (c # cs) sep =
     (if c = sep then [] # Split cs sep
      else (case Split cs sep of
              w # ws \<Rightarrow> (c # w) # ws
            | [] \<Rightarrow> [[c]]))"

text \<open>
  \<open>unicode.IsNumber(rune(b))\<close> for a byte \<open>b\<close>: the conversion gives the code point
  of the same value, and among the code points up to 255 the numbers are the ASCII digits,
  the superscripts two, three and one, and the three vulgar fractions.
\<close>

definition IsNumber :: "char \<Rightarrow> bool" where
  "IsNumber c =
     (let n = (of_char c :: nat)
      in (48 \<le> n \<and> n \<le> 57) \<or> n = 178 \<or> n = 179 \<or> n = 185 \<or> n = 188 \<or> n = 189 \<or> n = 190)"

text \<open>
  \<open>strings.TrimSpace\<close> removes the leading and the trailing white space of a string, rune
  by rune. The UTF-8 encodings of the runes that \<open>unicode.IsSpace\<close> accepts are listed;
  a byte sequence that decodes to no such rune stops the trimming.
\<close>

definition spaceEncodings :: "string list" where
  "spaceEncodings =
     [[CHR 0x09], [CHR 0x0A], [CHR 0x0B], [CHR 0x0C], [CHR 0x0D], [CHR 0x20],
      [CHR 0xC2, CHR 0x85], [CHR 0xC2, CHR 0xA0], [CHR 0xE1, CHR 0x9A, CHR 0x80],
      [CHR 0xE2, CHR 0x80, CHR 0x80], [CHR 0xE2, CHR 0x80, CHR 0x81],
      [CHR 0xE2, CHR 0x80, CHR 0x82], [CHR 0xE2, CHR 0x80, CHR 0x83],
      [CHR 0xE2, CHR 0x80, CHR 0x84], [CHR 0xE2, CHR 0x80, CHR 0x85],
      [CHR 0xE2, CHR 0x80, CHR 0x86], [CHR 0xE2, CHR 0x80, CHR 0x87],
      [CHR 0xE2, CHR 0x80, CHR 0x88], [CHR 0xE2, CHR 0x80, CHR 0x89],
      [CHR 0xE2, CHR 0x80, CHR 0x8A], [CHR 0xE2, CHR 0x80, CHR 0xA8],
      [CHR 0xE2, CHR 0x80, CHR 0xA9], [CHR 0xE2, CHR 0x80, CHR 0xAF],
      [CHR 0xE2, CHR 0x81, CHR 0x9F], [CHR 0xE3, CHR 0x80, CHR 0x80]]"

text \<open>The width in bytes of the white-space rune a string starts with, \<open>0\<close> for none.\<close>

definition spaceWidth :: "string list \<Rightarrow> string \<Rightarrow> nat" where
  "spaceWidth encs s = (case find (\<lambda>e. e \<noteq> [] \<and> prefix e s) encs of None \<Rightarrow> 0 | Some e \<Rightarrow> length e)"

function trimLeft :: "string list \<Rightarrow> string \<Rightarrow> string" where
  "trimLeft encs s = (if spaceWidth encs s = 0 then s else trimLeft encs (drop (spaceWidth encs s) s))"
  by pat_completeness auto
termination
proof (relation "measure (\<lambda>(encs, s). length s)")
  show "wf (measure (\<lambda>(encs, s). length s))"
    by simp
next
  fix encs :: "string list" and s :: string
  assume w: "spaceWidth encs s \<noteq> 0"
  then have "s \<noteq> []"
    by (auto simp: spaceWidth_def find_Some_iff split: option.splits)
  with w show "((encs, drop (spaceWidth encs s) s), (encs, s)) \<in> measure (\<lambda>(encs, s). length s)"
    by simp
qed

declare trimLeft.simps [simp del]

definition TrimSpace :: "string \<Rightarrow> string" where
  "TrimSpace s = rev (trimLeft (map rev spaceEncodings) (rev (trimLeft spaceEncodings s)))"

section \<open>Package version: versions, packages and errors\<close>

text \<open>
  The error values of package \<open>errs\<close> that the modelled functions return. The last
  constructor is not an error value of the program: it stands for the run-time panic of an
  index out of range, which ends the call without a result.
\<close>

datatype error =
    VersionNotFoundError string string string
  | PackageNotFoundError string string string
  | MalformedVersionError string
  | ErrCollectorNotFound
  | PanicIndexOutOfRange

text \<open>\<open>PackageKind\<close> is a Go string type with three named constants.\<close>

type_synonym PackageKind = string

definition SourceKind :: PackageKind where
  "SourceKind = ''Source''"

definition ArchiveKind :: PackageKind where
  "ArchiveKind = ''Archive''"

definition InstallerKind :: PackageKind where
  "InstallerKind = ''Installer''"

record Package =
  FileName :: string
  URL :: string
  Kind :: PackageKind
  OS :: string
  Arch :: string
  Size :: string
  Checksum :: string
  ChecksumURL :: string
  Algorithm :: string

text \<open>
  A \<open>Version\<close> holds its display name, the parsed semantic version and its packages. The
  semantic version belongs to the semver library, so its type is a parameter \<open>'sv\<close>. The
  list of packages holds pointers in the program; every producer in the sources fills it
  with packages it has just built, so the list here holds the packages themselves.
\<close>

record 'sv Version =
  name :: string
  sv :: 'sv
  pkgs :: "Package list"

text \<open>\<open>Version.match\<close>: some package's file name contains both strings.\<close>

fun matchPkgs :: "Package list \<Rightarrow> string \<Rightarrow> string \<Rightarrow> bool" where
  "matchPkgs [] os arch = False"
| "matchPkgs (pkg # rest) os arch =
     (if Contains (FileName pkg) os \<and> Contains (FileName pkg) arch then True
      else matchPkgs rest os arch)"

definition match :: "'sv Version \<Rightarrow> string \<Rightarrow> string \<Rightarrow> bool" where
  "match v os arch = matchPkgs (pkgs v) os arch"

section \<open>The finder\<close>

record 'sv Finder =
  kind :: PackageKind
  goos :: string
  goarch :: string
  items :: "'sv Version list"

definition Latest :: string where
  "Latest = ''latest''"

text \<open>
  The three loops of the finder run \<open>i\<close> from \<open>len(items) - 1\<close> down to \<open>0\<close>. In the
  functions below the numeric argument is \<open>i + 1\<close>, so \<open>0\<close> is the loop's exit.
\<close>

fun latestLoop :: "'sv Finder \<Rightarrow> nat \<Rightarrow> 'sv Version option" where
  "latestLoop fdr 0 = None"
| "latestLoop fdr (Suc i) =
     (if match (items fdr ! i) (goos fdr) (goarch fdr) then Some (items fdr ! i)
      else latestLoop fdr i)"

definition findLatest :: "'sv Finder \<Rightarrow> error + 'sv Version" where
  "findLatest fdr =
     (if length (items fdr) = 0 then Inl (VersionNotFoundError Latest (goos fdr) (goarch fdr))
      else (case latestLoop fdr (length (items fdr)) of
              Some v \<Rightarrow> Inr v
            | None \<Rightarrow> Inl (PackageNotFoundError (kind fdr) (goos fdr) (goarch fdr))))"

fun exactLoop :: "'sv Finder \<Rightarrow> string \<Rightarrow> nat \<Rightarrow> 'sv Version option" where
  "exactLoop fdr vname 0 = None"
| "exactLoop fdr vname (Suc i) =
     (if name (items fdr ! i) = vname \<and> match (items fdr ! i) (goos fdr) (goarch fdr)
      then Some (items fdr ! i)
      else exactLoop fdr vname i)"

text \<open>
  The constraint loop carries the flag \<open>versionFound\<close>; it returns the version it found,
  if any, and the flag's last value.
\<close>

fun constraintLoop ::
  "('c \<Rightarrow> 'sv \<Rightarrow> bool) \<Rightarrow> 'c \<Rightarrow> 'sv Finder \<Rightarrow> nat \<Rightarrow> bool \<Rightarrow> 'sv Version option \<times> bool" where
  "constraintLoop Check cs fdr 0 versionFound = (None, versionFound)"
| "constraintLoop Check cs fdr (Suc i) versionFound =
     (if Check cs (sv (items fdr ! i))
      then (if match (items fdr ! i) (goos fdr) (goarch fdr)
            then (Some (items fdr ! i), True)
            else constraintLoop Check cs fdr i True)
      else constraintLoop Check cs fdr i versionFound)"

text \<open>
  \<open>Finder.Find\<close>. The semver library's \<open>NewConstraint\<close> (\<open>None\<close> for a parse error) and
  \<open>Constraints.Check\<close> are parameters.
\<close>

definition Find ::
  "(string \<Rightarrow> 'c option) \<Rightarrow> ('c \<Rightarrow> 'sv \<Rightarrow> bool) \<Rightarrow> 'sv Finder \<Rightarrow> string \<Rightarrow> error + 'sv Version" where
  "Find NewConstraint Check fdr vname =
     (if vname = Latest then findLatest fdr
      else (case exactLoop fdr vname (length (items fdr)) of
              Some v \<Rightarrow> Inr v
            | None \<Rightarrow>
               (case NewConstraint vname of
                  None \<Rightarrow> Inl (VersionNotFoundError vname (goos fdr) (goarch fdr))
                | Some cs \<Rightarrow>
                   (case constraintLoop Check cs fdr (length (items fdr)) False of
                      (Some v, _) \<Rightarrow> Inr v
                    | (None, versionFound) \<Rightarrow>
                       (if versionFound
                        then Inl (PackageNotFoundError (kind fdr) (goos fdr) (goarch fdr))
                        else Inl (VersionNotFoundError vname (goos fdr) (goarch fdr)))))))"

section \<open>Constructing versions\<close>

text \<open>
  \<open>Semantify\<close> puts a hyphen before the first \<open>alpha\<close>, else the first \<open>beta\<close>, else the
  first \<open>rc\<close>, unless that substring starts the name, and hands the result to the semver
  library's \<open>NewVersion\<close>, a parameter here (\<open>None\<close> for its error).
\<close>

definition hyphenate :: "string \<Rightarrow> string" where
  "hyphenate vname =
     (let idx = (if Contains vname ''alpha'' then Index vname ''alpha''
                 else if Contains vname ''beta'' then Index vname ''beta''
                 else if Contains vname ''rc'' then Index vname ''rc''
                 else 0)
      in if 0 < idx then take (nat idx) vname @ ''-'' @ drop (nat idx) vname else vname)"

definition Semantify :: "(string \<Rightarrow> 'sv option) \<Rightarrow> string \<Rightarrow> error + 'sv" where
  "Semantify NewVersion vname =
     (case NewVersion (hyphenate vname) of
        None \<Rightarrow> Inl (MalformedVersionError (hyphenate vname))
      | Some v \<Rightarrow> Inr v)"

text \<open>\<open>version.New\<close> with the option \<open>WithPackages\<close>.\<close>

definition New :: "(string \<Rightarrow> 'sv option) \<Rightarrow> string \<Rightarrow> Package list \<Rightarrow> error + 'sv Version" where
  "New NewVersion vname ps =
     (case Semantify NewVersion vname of
        Inl e \<Rightarrow> Inl e
      | Inr v \<Rightarrow> Inr \<lparr>name = vname, sv = v, pkgs = ps\<rparr>)"

section \<open>The filename decoder\<close>

text \<open>
  A \<open>GoFileItem\<close> has the fields \<open>FileName\<close>, \<open>URL\<close> and \<open>Size\<close>; they carry the prefix
  \<open>Item\<close> here, since a package has fields of the same names.
\<close>

record GoFileItem =
  ItemFileName :: string
  ItemURL :: string
  ItemSize :: string

text \<open>\<open>s[i]\<close> reads a byte and panics when \<open>i\<close> is out of range.\<close>

definition byteAt :: "string \<Rightarrow> nat \<Rightarrow> error + char" where
  "byteAt s i = (if i < length s then Inr (s ! i) else Inl PanicIndexOutOfRange)"

definition getGoVersion :: "GoFileItem \<Rightarrow> error + string" where
  "getGoVersion item =
     (let arr = Split (TrimPrefix (ItemFileName item) ''go'') (CHR ''.'')
      in if length arr < 3 then Inr []
         else (case byteAt (arr ! 0) 0 of
                 Inl e \<Rightarrow> Inl e
               | Inr c0 \<Rightarrow>
                  if \<not> IsNumber c0 then Inr []
                  else (case byteAt (arr ! 2) 0 of
                          Inl e \<Rightarrow> Inl e
                        | Inr c2 \<Rightarrow>
                           if IsNumber c2 then Inr (arr ! 0 @ ''.'' @ arr ! 1 @ ''.'' @ arr ! 2)
                           else (case byteAt (arr ! 1) 0 of
                                   Inl e \<Rightarrow> Inl e
                                 | Inr c1 \<Rightarrow>
                                    if IsNumber c1 then Inr (arr ! 0 @ ''.'' @ arr ! 1)
                                    else Inr (arr ! 0)))))"

definition isSHA256File :: "GoFileItem \<Rightarrow> bool" where
  "isSHA256File item = HasSuffix (ItemFileName item) ''.sha256''"

definition isPackageFile :: "GoFileItem \<Rightarrow> bool" where
  "isPackageFile item =
     (HasSuffix (ItemFileName item) ''.tar.gz'' \<or> HasSuffix (ItemFileName item) ''.pkg''
      \<or> HasSuffix (ItemFileName item) ''.zip'' \<or> HasSuffix (ItemFileName item) ''.msi'')"

definition getKind :: "GoFileItem \<Rightarrow> PackageKind" where
  "getKind item =
     (if HasSuffix (ItemFileName item) ''.src.tar.gz'' then SourceKind
      else if HasSuffix (ItemFileName item) ''.tar.gz'' \<or> HasSuffix (ItemFileName item) ''.zip''
        then ArchiveKind
      else if HasSuffix (ItemFileName item) ''.pkg'' \<or> HasSuffix (ItemFileName item) ''.msi''
        then InstallerKind
      else ''Unknown'')"

text \<open>The entries of the two token tables, in the order of the map literals.\<close>

definition osMapping :: "(string \<times> string) list" where
  "osMapping =
     [(''linux'', ''Linux''), (''darwin'', ''macOS''), (''windows'', ''Windows''),
      (''freebsd'', ''FreeBSD''), (''netbsd'', ''netbsd''), (''openbsd'', ''openbsd''),
      (''solaris'', ''solaris''), (''plan9'', ''plan9''), (''aix'', ''aix''),
      (''dragonfly'', ''dragonfly''), (''illumos'', ''illumos'')]"

definition archMapping :: "(string \<times> string) list" where
  "archMapping =
     [(''-386.'', ''x86''), (''-amd64.'', ''x86-64''), (''-arm.'', ''ARMv6''),
      (''-arm64.'', ''ARM64''), (''-armv6l.'', ''ARMv6''), (''-ppc64.'', ''ppc64''),
      (''-ppc64le.'', ''ppc64le''), (''-mips.'', ''mips''), (''-mipsle.'', ''mipsle''),
      (''-mips64.'', ''mips64''), (''-mips64le.'', ''mips64le''), (''-s390x.'', ''s390x''),
      (''-riscv64.'', ''riscv64''), (''-loong64.'', ''loong64'')]"

text \<open>
  Go leaves the order in which \<open>range\<close> visits a map open, and it may differ from one loop
  to the next. \<open>getOS\<close> and \<open>getArch\<close> therefore take the order of the visit as an
  argument: a list \<open>visit\<close> with \<open>visits m visit\<close>, that is, the entries of the map \<open>m\<close>,
  each once. The loop returns the label of the first entry whose token the file name
  contains.
\<close>

definition visits :: "('k \<times> 'v) list \<Rightarrow> ('k \<times> 'v) list \<Rightarrow> bool" where
  "visits m visit = (distinct visit \<and> set visit = set m)"

fun firstContained :: "(string \<times> string) list \<Rightarrow> string \<Rightarrow> string" where
  "firstContained [] fileName = []"
| "firstContained ((k, v) # rest) fileName =
     (if Contains fileName k then v else firstContained rest fileName)"

definition getOS :: "(string \<times> string) list \<Rightarrow> GoFileItem \<Rightarrow> string" where
  "getOS visit item = firstContained visit (ItemFileName item)"

definition getArch :: "(string \<times> string) list \<Rightarrow> GoFileItem \<Rightarrow> string" where
  "getArch visit item = firstContained visit (ItemFileName item)"

text \<open>
  The flat-index adapters keep a row of the listing when its link starts with \<open>go\<close> and
  does not end with a slash (\<open>findGoFileItems\<close>).
\<close>

definition keepsRow :: "string \<Rightarrow> bool" where
  "keepsRow href = (\<not> (\<not> HasPrefix href ''go'' \<or> HasSuffix href ''/''))"

section \<open>Grouping and checksum pairing\<close>

text \<open>
  Modelled from the spec: the constant \<open>checksum.SHA256\<close> of package \<open>pkg/checksum\<close>, whose
  declaration is not among the sources. The spec calls it a fixed label; the finder's
  tests and \<open>VerifyChecksum\<close> use the string below for it.
\<close>

definition checksum_SHA256 :: string where
  "checksum_SHA256 = ''SHA256''"

text \<open>
  \<open>pkgMap\<close> maps a version string to its packages. Reading a key that is absent gives the
  nil slice. The slices hold pointers, each to a package that one slice alone holds, so a
  write through such a pointer is the update of one element of one slice.
\<close>

type_synonym pkgMap = "string \<rightharpoonup> Package list"

definition slice :: "pkgMap \<Rightarrow> string \<Rightarrow> Package list" where
  "slice m ver = (case m ver of None \<Rightarrow> [] | Some ps \<Rightarrow> ps)"

definition newPackage ::
  "(string \<times> string) list \<Rightarrow> (string \<times> string) list \<Rightarrow> GoFileItem \<Rightarrow> Package" where
  "newPackage osVisit archVisit pitem =
     \<lparr>FileName = ItemFileName pitem, URL = ItemURL pitem, Kind = getKind pitem,
      OS = getOS osVisit pitem, Arch = getArch archVisit pitem, Size = ItemSize pitem,
      Checksum = [], ChecksumURL = [], Algorithm = []\<rparr>"

definition setChecksum :: "GoFileItem \<Rightarrow> Package \<Rightarrow> Package" where
  "setChecksum pitem ppkg =
     (if \<not> HasPrefix (ItemFileName pitem) (FileName ppkg) then ppkg
      else ppkg\<lparr>Algorithm := checksum_SHA256, ChecksumURL := ItemURL pitem\<rparr>)"

text \<open>The body of the first loop of \<open>Convert2Versions\<close>, for one item.\<close>

definition convertItem ::
  "(string \<times> string) list \<Rightarrow> (string \<times> string) list \<Rightarrow> pkgMap \<Rightarrow> GoFileItem \<Rightarrow> error + pkgMap" where
  "convertItem osVisit archVisit m pitem =
     (case getGoVersion pitem of
        Inl e \<Rightarrow> Inl e
      | Inr ver \<Rightarrow>
         (let m1 = (if m ver = None then m(ver \<mapsto> []) else m)
          in if isPackageFile pitem
               then Inr (m1(ver \<mapsto> slice m1 ver @ [newPackage osVisit archVisit pitem]))
             else if isSHA256File pitem
               then Inr (m1(ver \<mapsto> map (setChecksum pitem) (slice m1 ver)))
             else Inr m1))"

text \<open>
  The first loop. The item at position \<open>i\<close> of the input is decoded with the visiting
  orders \<open>osVisit i\<close> and \<open>archVisit i\<close>.
\<close>

fun convertLoop ::
  "(nat \<Rightarrow> (string \<times> string) list) \<Rightarrow> (nat \<Rightarrow> (string \<times> string) list) \<Rightarrow> nat \<Rightarrow> pkgMap
     \<Rightarrow> GoFileItem list \<Rightarrow> error + pkgMap" where
  "convertLoop osVisit archVisit i m [] = Inr m"
| "convertLoop osVisit archVisit i m (pitem # rest) =
     (case convertItem (osVisit i) (archVisit i) m pitem of
        Inl e \<Rightarrow> Inl e
      | Inr m' \<Rightarrow> convertLoop osVisit archVisit (Suc i) m' rest)"

text \<open>The second loop: one version for each key, in the order \<open>keys\<close> of the visit.\<close>

fun newVersions ::
  "(string \<Rightarrow> 'sv option) \<Rightarrow> pkgMap \<Rightarrow> string list \<Rightarrow> error + 'sv Version list" where
  "newVersions NewVersion m [] = Inr []"
| "newVersions NewVersion m (vname # keys) =
     (case New NewVersion vname (slice m vname) of
        Inl e \<Rightarrow> Inl e
      | Inr v \<Rightarrow>
         (case newVersions NewVersion m keys of
            Inl e \<Rightarrow> Inl e
          | Inr vers \<Rightarrow> Inr (v # vers)))"

text \<open>
  \<open>Convert2Versions\<close>. Besides the visiting orders it takes the semver library's
  \<open>NewVersion\<close>, the order \<open>keysOf\<close> in which the second loop visits the keys of the map,
  and the sort of the collection.
\<close>

definition Convert2Versions ::
  "(string \<Rightarrow> 'sv option) \<Rightarrow> ('sv Version list \<Rightarrow> 'sv Version list) \<Rightarrow> (pkgMap \<Rightarrow> string list)
     \<Rightarrow> (nat \<Rightarrow> (string \<times> string) list) \<Rightarrow> (nat \<Rightarrow> (string \<times> string) list)
     \<Rightarrow> GoFileItem list \<Rightarrow> error + 'sv Version list" where
  "Convert2Versions NewVersion sortCollection keysOf osVisit archVisit its =
     (case convertLoop osVisit archVisit 0 Map.empty its of
        Inl e \<Rightarrow> Inl e
      | Inr m \<Rightarrow>
         (case newVersions NewVersion m (keysOf m) of
            Inl e \<Rightarrow> Inl e
          | Inr vers \<Rightarrow> Inr (sortCollection vers)))"

text \<open>
  For the statements about the result of \<open>Convert2Versions\<close>, in the words of the spec:
  \<open>sidecarsOf ver fn later\<close> are the checksum records among \<open>later\<close> that have the
  version string \<open>ver\<close> and a file name that starts with \<open>fn\<close>, and \<open>pairedWith p ss\<close> is
  the package \<open>p\<close> after such records \<open>ss\<close> have been matched against it one after the
  other: untouched when there is none, else with the fixed label as its algorithm and the
  URL of the last record as its checksum URL.
\<close>

definition sidecarsOf :: "string \<Rightarrow> string \<Rightarrow> GoFileItem list \<Rightarrow> GoFileItem list" where
  "sidecarsOf ver fn later =
     filter (\<lambda>s. isSHA256File s \<and> getGoVersion s = Inr ver \<and> prefix fn (ItemFileName s)) later"

definition pairedWith :: "Package \<Rightarrow> GoFileItem list \<Rightarrow> Package" where
  "pairedWith p ss =
     (if ss = [] then p else p\<lparr>Algorithm := ''SHA256'', ChecksumURL := ItemURL (last ss)\<rparr>)"

section \<open>The collector registry\<close>

definition OriginalOfficialDownloadPageURL :: string where
  "OriginalOfficialDownloadPageURL = ''https://golang.org/dl/''"

definition OfficialDownloadPageURL :: string where
  "OfficialDownloadPageURL = ''https://go.dev/dl/''"

definition CNDownloadPageURL :: string where
  "CNDownloadPageURL = ''https://golang.google.cn/dl/''"

definition AliYunDownloadPageURL :: string where
  "AliYunDownloadPageURL = ''https://mirrors.aliyun.com/golang/''"

definition HUSTDownloadPageURL :: string where
  "HUSTDownloadPageURL = ''https://mirrors.hust.edu.cn/golang/''"

definition NJUDownloadPageURL :: string where
  "NJUDownloadPageURL = ''https://mirrors.nju.edu.cn/golang/''"

definition USTCDownloadPageURL :: string where
  "USTCDownloadPageURL = ''https://mirrors.ustc.edu.cn/golang/''"

text \<open>
  Modelled from the spec: the constant \<open>autoindex.Name\<close>. The package of the autoindex
  adapter is not among the sources; the spec names the adapter \<open>autoindex\<close> and its prefix
  \<open>autoindex|\<close>.
\<close>

definition autoindex_Name :: string where
  "autoindex_Name = ''autoindex''"

declare autoindex_Name_def [simp]

text \<open>
  The three adapters, and the constant \<open>Name\<close> of each adapter's package: \<open>official\<close> and
  \<open>fancyindex\<close> as their packages declare them.
\<close>

datatype adapter = Official | Fancyindex | Autoindex

fun adapterName :: "adapter \<Rightarrow> string" where
  "adapterName Official = ''official''"
| "adapterName Fancyindex = ''fancyindex''"
| "adapterName Autoindex = autoindex_Name"

text \<open>The first statements of the loop body: trim, and end with a slash.\<close>

definition normalizeURL :: "string \<Rightarrow> string" where
  "normalizeURL u =
     (let t = TrimSpace u in if \<not> HasSuffix t ''/'' then t @ ''/'' else t)"

text \<open>
  The rest of the loop body, for the normalized element \<open>u\<close>: the adapter whose constructor
  is called and the URL it is called with, or \<open>None\<close> for \<open>continue\<close>.
\<close>

definition selectCollector :: "string \<Rightarrow> (adapter \<times> string) option" where
  "selectCollector u =
     (let idx = Index u ''|''
      in if 0 < idx \<and> idx < int (length u) - 1
         then (let downloadPageURL = TrimSpace (drop (nat (idx + 1)) u);
                   collectorName = TrimSpace (take (nat idx) u)
               in if collectorName = adapterName Official then Some (Official, downloadPageURL)
                  else if collectorName = adapterName Fancyindex then Some (Fancyindex, downloadPageURL)
                  else if collectorName = adapterName Autoindex then Some (Autoindex, downloadPageURL)
                  else None)
         else if u = OfficialDownloadPageURL \<or> u = OriginalOfficialDownloadPageURL
                 \<or> u = CNDownloadPageURL
           then Some (Official, u)
         else if u = AliYunDownloadPageURL \<or> u = HUSTDownloadPageURL \<or> u = NJUDownloadPageURL
           then Some (Fancyindex, u)
         else if u = USTCDownloadPageURL
           then Some (Autoindex, u)
         else None)"

text \<open>
  The loop of \<open>NewCollector\<close> from index \<open>i\<close> on. The adapters' constructors fetch a page
  over the network; \<open>construct a url\<close> stands for the result of the constructor of adapter
  \<open>a\<close>, a collector or an error, which \<open>NewCollector\<close> returns as it is. The loop writes
  to the slice, so it returns the slice as well.
\<close>

function collectorLoop ::
  "(adapter \<Rightarrow> string \<Rightarrow> error + 'c) \<Rightarrow> string list \<Rightarrow> nat \<Rightarrow> (error + 'c) \<times> string list" where
  "collectorLoop construct urls i =
     (if i < length urls
      then (let urls' = urls[i := normalizeURL (urls ! i)]
            in case selectCollector (urls' ! i) of
                 Some (a, url) \<Rightarrow> (construct a url, urls')
               | None \<Rightarrow> collectorLoop construct urls' (Suc i))
      else (Inl ErrCollectorNotFound, urls))"
  by pat_completeness auto
termination
  by (relation "measure (\<lambda>(construct, urls, i). length urls - i)") auto

declare collectorLoop.simps [simp del]

text \<open>
  \<open>NewCollector\<close>. A caller that passes a slice (\<open>NewCollector(urls...)\<close>) shares its
  elements with the parameter, so the second component is the caller's slice after the
  call. For no element, or the empty string alone, the parameter is set to a new slice and
  the caller's is not written.
\<close>

definition NewCollector ::
  "(adapter \<Rightarrow> string \<Rightarrow> error + 'c) \<Rightarrow> string list \<Rightarrow> (error + 'c) \<times> string list" where
  "NewCollector construct urls =
     (if length urls = 0 \<or> (length urls = 1 \<and> urls ! 0 = [])
      then (fst (collectorLoop construct [OfficialDownloadPageURL] 0), urls)
      else collectorLoop construct urls 0)"

section \<open>Semantic versions\<close>

text \<open>
  Modelled from the spec: the semver library (\<open>NewVersion\<close>, \<open>LessThan\<close>) and the method
  \<open>Less\<close> of \<open>Collection\<close>, none of which is among the sources. The spec says that a name
  must parse as a semantic version with an optional prerelease, that \<open>1.7\<close> and
  \<open>1.21-rc4\<close> are such names and \<open>voidint\<close> is not, and that the collection is sorted
  ascending by standard semver precedence: by major, minor and patch number, then a
  prerelease below its release, and two prereleases identifier by identifier, a numeric
  identifier by its value and below an alphanumeric one, alphanumeric ones in byte order,
  and a proper prefix below the longer list. Every definition of this section is part of
  that model.
\<close>

text \<open>Modelled from the spec: a prerelease identifier, numeric or alphanumeric.\<close>

datatype ident = Numeric nat | Alphanumeric string

text \<open>Modelled from the spec: the semver library's version value.\<close>

record SemVer =
  major :: nat
  minor :: nat
  patch :: nat
  pre :: "ident list"
  metadata :: string

text \<open>Modelled from the spec: the characters of the semver grammar.\<close>

definition isDigit :: "char \<Rightarrow> bool" where
  "isDigit c = (48 \<le> (of_char c :: nat) \<and> (of_char c :: nat) \<le> 57)"

definition isIdentChar :: "char \<Rightarrow> bool" where
  "isIdentChar c =
     (isDigit c \<or> (65 \<le> (of_char c :: nat) \<and> (of_char c :: nat) \<le> 90)
      \<or> (97 \<le> (of_char c :: nat) \<and> (of_char c :: nat) \<le> 122) \<or> c = CHR ''-'')"

text \<open>Modelled from the spec: a number of the version, a non-empty string of digits.\<close>

definition parseUint :: "string \<Rightarrow> nat option" where
  "parseUint s =
     (if s \<noteq> [] \<and> list_all isDigit s
      then Some (foldl (\<lambda>n c. 10 * n + (of_char c - 48)) 0 s)
      else None)"

text \<open>
  Modelled from the spec: the part of a string before the first \<open>sep\<close>, and the part after
  it if there is one.
\<close>

fun breakAt :: "char \<Rightarrow> string \<Rightarrow> string \<times> string option" where
  "breakAt sep [] = ([], None)"
| "breakAt sep (c # cs) =
     (if c = sep then ([], Some cs)
      else (case breakAt sep cs of (before, rest) \<Rightarrow> (c # before, rest)))"

text \<open>
  Modelled from the spec: one prerelease identifier. A numeric identifier has no leading
  zero.
\<close>

definition parseIdent :: "string \<Rightarrow> ident option" where
  "parseIdent s =
     (if s = [] \<or> \<not> list_all isIdentChar s then None
      else if list_all isDigit s
        then (if 1 < length s \<and> hd s = CHR ''0'' then None
              else map_option Numeric (parseUint s))
      else Some (Alphanumeric s))"

fun allSome :: "'a option list \<Rightarrow> 'a list option" where
  "allSome [] = Some []"
| "allSome (None # xs) = None"
| "allSome (Some x # xs) = map_option ((#) x) (allSome xs)"

text \<open>
  Modelled from the spec: the semver library's \<open>NewVersion\<close>. A name is an optional \<open>v\<close>,
  one to three numbers separated by dots (a missing minor or patch number is \<open>0\<close>), then
  optionally a hyphen and the prerelease identifiers, then optionally a plus sign and the
  build metadata.
\<close>

definition semver_NewVersion :: "string \<Rightarrow> SemVer option" where
  "semver_NewVersion s =
     (let s1 = (if HasPrefix s ''v'' then drop 1 s else s);
          (s2, meta) = breakAt (CHR ''+'') s1;
          (core, prerel) = breakAt (CHR ''-'') s2;
          nums = allSome (map parseUint (Split core (CHR ''.'')));
          ids = (case prerel of
                   None \<Rightarrow> Some []
                 | Some p \<Rightarrow> allSome (map parseIdent (Split p (CHR ''.''))));
          metaOk = (case meta of
                      None \<Rightarrow> True
                    | Some m \<Rightarrow> list_all (\<lambda>part. part \<noteq> [] \<and> list_all isIdentChar part)
                                  (Split m (CHR ''.'')))
      in case (nums, ids) of
           (Some ns, Some is) \<Rightarrow>
             (if length ns \<le> 3 \<and> metaOk
              then Some \<lparr>major = ns ! 0,
                         minor = (if 1 < length ns then ns ! 1 else 0),
                         patch = (if 2 < length ns then ns ! 2 else 0),
                         pre = is,
                         metadata = (case meta of None \<Rightarrow> [] | Some m \<Rightarrow> m)\<rparr>
              else None)
         | _ \<Rightarrow> None)"

text \<open>Modelled from the spec: the byte order of two alphanumeric identifiers.\<close>

fun bytesLess :: "string \<Rightarrow> string \<Rightarrow> bool" where
  "bytesLess [] [] = False"
| "bytesLess [] (y # ys) = True"
| "bytesLess (x # xs) [] = False"
| "bytesLess (x # xs) (y # ys) =
     ((of_char x :: nat) < of_char y \<or> (x = y \<and> bytesLess xs ys))"

text \<open>Modelled from the spec: the precedence of two identifiers, and of two lists of them.\<close>

fun identLess :: "ident \<Rightarrow> ident \<Rightarrow> bool" where
  "identLess (Numeric m) (Numeric n) = (m < n)"
| "identLess (Numeric m) (Alphanumeric t) = True"
| "identLess (Alphanumeric s) (Numeric n) = False"
| "identLess (Alphanumeric s) (Alphanumeric t) = bytesLess s t"

fun identsLess :: "ident list \<Rightarrow> ident list \<Rightarrow> bool" where
  "identsLess [] [] = False"
| "identsLess [] (b # bs) = True"
| "identsLess (a # as) [] = False"
| "identsLess (a # as) (b # bs) = (identLess a b \<or> (a = b \<and> identsLess as bs))"

text \<open>
  Modelled from the spec: the precedence of two prereleases, where the empty list stands
  for a release and is above every prerelease.
\<close>

definition preLess :: "ident list \<Rightarrow> ident list \<Rightarrow> bool" where
  "preLess p q = (if p = [] then False else if q = [] then True else identsLess p q)"

text \<open>Modelled from the spec: the semver library's \<open>LessThan\<close>, by semver precedence.\<close>

definition semver_LessThan :: "SemVer \<Rightarrow> SemVer \<Rightarrow> bool" where
  "semver_LessThan a b =
     (major a < major b
      \<or> (major a = major b
          \<and> (minor a < minor b
              \<or> (minor a = minor b
                  \<and> (patch a < patch b \<or> (patch a = patch b \<and> preLess (pre a) (pre b)))))))"

text \<open>
  Modelled from the spec: \<open>Collection.Less\<close>, the sort contract of the collection: the
  element at \<open>i\<close> is below the element at \<open>j\<close> by semantic version.
\<close>

definition Less :: "SemVer Version list \<Rightarrow> nat \<Rightarrow> nat \<Rightarrow> bool" where
  "Less c i j = semver_LessThan (sv (c ! i)) (sv (c ! j))"

section \<open>A small corpus\<close>

text \<open>
  The corpus of the spec's examples, for a finder that targets \<open>darwin\<close> and \<open>arm64\<close>:
  \<open>1.18.10\<close> and \<open>1.21.0\<close> have no package for the target. The semantic version is a
  triple of numbers here, and the constraint parser knows three tilde ranges, each
  checked by its major and minor number.
\<close>

definition fixturePkg :: "string \<Rightarrow> Package" where
  "fixturePkg fn = \<lparr>FileName = fn, URL = [], Kind = ArchiveKind, OS = [], Arch = [], Size = [],
     Checksum = [], ChecksumURL = [], Algorithm = []\<rparr>"

definition go1_18_10 :: "(nat \<times> nat \<times> nat) Version" where
  "go1_18_10 = \<lparr>name = ''1.18.10'', sv = (1, 18, 10),
     pkgs = [fixturePkg ''go1.18.10.linux-amd64.tar.gz'']\<rparr>"

definition go1_19_0 :: "(nat \<times> nat \<times> nat) Version" where
  "go1_19_0 = \<lparr>name = ''1.19.0'', sv = (1, 19, 0),
     pkgs = [fixturePkg ''go1.19.0.darwin-arm64.tar.gz'']\<rparr>"

definition go1_20_0 :: "(nat \<times> nat \<times> nat) Version" where
  "go1_20_0 = \<lparr>name = ''1.20.0'', sv = (1, 20, 0),
     pkgs = [fixturePkg ''go1.20.0.linux-amd64.tar.gz'', fixturePkg ''go1.20.0.darwin-arm64.tar.gz'']\<rparr>"

definition go1_20_1 :: "(nat \<times> nat \<times> nat) Version" where
  "go1_20_1 = \<lparr>name = ''1.20.1'', sv = (1, 20, 1),
     pkgs = [fixturePkg ''go1.20.1.darwin-arm64.tar.gz'']\<rparr>"

definition go1_21_0 :: "(nat \<times> nat \<times> nat) Version" where
  "go1_21_0 = \<lparr>name = ''1.21.0'', sv = (1, 21, 0),
     pkgs = [fixturePkg ''go1.21.0.linux-amd64.tar.gz'']\<rparr>"

definition fixtureItems :: "(nat \<times> nat \<times> nat) Version list" where
  "fixtureItems = [go1_18_10, go1_19_0, go1_20_0, go1_20_1, go1_21_0]"

definition fixtureFinder :: "(nat \<times> nat \<times> nat) Finder" where
  "fixtureFinder = \<lparr>kind = ArchiveKind, goos = ''darwin'', goarch = ''arm64'', items = fixtureItems\<rparr>"

definition fixtureNewConstraint :: "string \<Rightarrow> (nat \<times> nat) option" where
  "fixtureNewConstraint s =
     (if s = ''~1.15'' then Some (1, 15) else if s = ''~1.18'' then Some (1, 18)
      else if s = ''~1.20'' then Some (1, 20) else None)"

definition fixtureCheck :: "nat \<times> nat \<Rightarrow> nat \<times> nat \<times> nat \<Rightarrow> bool" where
  "fixtureCheck cs v = (fst v = fst cs \<and> fst (snd v) = snd cs)"

definition fixtureLess :: "nat \<times> nat \<times> nat \<Rightarrow> nat \<times> nat \<times> nat \<Rightarrow> bool" where
  "fixtureLess a b =
     (fst a < fst b \<or> (fst a = fst b \<and> (fst (snd a) < fst (snd b)
        \<or> (fst (snd a) = fst (snd b) \<and> snd (snd a) < snd (snd b)))))"

section \<open>A small listing\<close>

text \<open>
  The item that the listing at the HUST mirror gives for a file name, and the packages of
  two such items.
\<close>

definition listed :: "string \<Rightarrow> GoFileItem" where
  "listed fn = \<lparr>ItemFileName = fn, ItemURL = HUSTDownloadPageURL @ fn, ItemSize = ''-''\<rparr>"

definition pkgLinux :: Package where
  "pkgLinux = newPackage osMapping archMapping (listed ''go1.21.4.linux-amd64.tar.gz'')"

definition pkgDarwin :: Package where
  "pkgDarwin = newPackage osMapping archMapping (listed ''go1.21.4.darwin-arm64.tar.gz'')"

text \<open>
  Two listings for the version \<open>1.21.4\<close>: two archives followed by the checksum record of
  the first, and an archive followed by its signature.
\<close>

definition pairedListing :: "GoFileItem list" where
  "pairedListing =
     [listed ''go1.21.4.linux-amd64.tar.gz'', listed ''go1.21.4.darwin-arm64.tar.gz'',
      listed ''go1.21.4.linux-amd64.tar.gz.sha256'']"

definition mixedListing :: "GoFileItem list" where
  "mixedListing =
     [listed ''go1.21.4.linux-amd64.tar.gz'', listed ''go1.21.4.linux-amd64.tar.gz.asc'']"

section \<open>A constructor that always succeeds\<close>

text \<open>
  For the examples of the registry: a stand-in for the adapters' constructors that fetches
  nothing and returns the adapter's name and the URL it was given.
\<close>

definition named :: "adapter \<Rightarrow> string \<Rightarrow> error + string \<times> string" where
  "named a url = Inr (adapterName a, url)"

section \<open>Four version names\<close>

text \<open>The semantic versions of the four names of the spec's ordering example.\<close>

definition sv1_10beta2 :: SemVer where
  "sv1_10beta2 = \<lparr>major = 1, minor = 10, patch = 0, pre = [Alphanumeric ''beta2''], metadata = []\<rparr>"

definition sv1_19beta1 :: SemVer where
  "sv1_19beta1 = \<lparr>major = 1, minor = 19, patch = 0, pre = [Alphanumeric ''beta1''], metadata = []\<rparr>"

definition sv1_21rc4 :: SemVer where
  "sv1_21rc4 = \<lparr>major = 1, minor = 21, patch = 0, pre = [Alphanumeric ''rc4''], metadata = []\<rparr>"

definition sv1_21_0 :: SemVer where
  "sv1_21_0 = \<lparr>major = 1, minor = 21, patch = 0, pre = [], metadata = []\<rparr>"

section \<open>Facts about the string functions\<close>

lemma Index_nonneg_iff: "0 \<le> Index s sub \<longleftrightarrow> sublist sub s"
  by (induction s) (auto simp: Let_def sublist_Cons_right)

lemma Contains_iff_sublist: "Contains s sub \<longleftrightarrow> sublist sub s"
  by (simp add: Contains_def Index_nonneg_iff)

section \<open>Facts about the finder's loops\<close>

lemma matchPkgs_iff:
  "matchPkgs ps os arch \<longleftrightarrow> (\<exists>p \<in> set ps. Contains (FileName p) os \<and> Contains (FileName p) arch)"
  by (induction ps) auto

lemma find_rev_snoc:
  "find P (rev (xs @ [x])) = (if P x then Some x else find P (rev xs))"
  by simp

lemma latestLoop_find:
  "n \<le> length (items fdr) \<Longrightarrow>
   latestLoop fdr n = find (\<lambda>v. match v (goos fdr) (goarch fdr)) (rev (take n (items fdr)))"
proof (induction n)
  case 0
  then show ?case by simp
next
  case (Suc n)
  then have "take (Suc n) (items fdr) = take n (items fdr) @ [items fdr ! n]"
    by (simp add: take_Suc_conv_app_nth)
  with Suc show ?case by simp
qed

lemma exactLoop_find:
  "n \<le> length (items fdr) \<Longrightarrow>
   exactLoop fdr vname n =
     find (\<lambda>v. name v = vname \<and> match v (goos fdr) (goarch fdr)) (rev (take n (items fdr)))"
proof (induction n)
  case 0
  then show ?case by simp
next
  case (Suc n)
  then have "take (Suc n) (items fdr) = take n (items fdr) @ [items fdr ! n]"
    by (simp add: take_Suc_conv_app_nth)
  with Suc show ?case by simp
qed

lemma constraintLoop_find:
  "n \<le> length (items fdr) \<Longrightarrow>
   constraintLoop Check cs fdr n b =
     (case find (\<lambda>v. Check cs (sv v) \<and> match v (goos fdr) (goarch fdr)) (rev (take n (items fdr))) of
        Some v \<Rightarrow> (Some v, True)
      | None \<Rightarrow> (None, b \<or> (\<exists>v \<in> set (take n (items fdr)). Check cs (sv v))))"
proof (induction n arbitrary: b)
  case 0
  then show ?case by simp
next
  case (Suc n)
  then have t: "take (Suc n) (items fdr) = take n (items fdr) @ [items fdr ! n]"
    by (simp add: take_Suc_conv_app_nth)
  from Suc have le: "n \<le> length (items fdr)" by simp
  show ?case
    by (auto simp: t Suc.IH[OF le] split: option.splits)
qed

section \<open>Latest\<close>

text \<open>
  C3. \<open>Find "latest"\<close> scans from the highest index to the lowest and returns the first
  version that has a package whose file name contains the target OS and the target
  architecture as substrings. An empty corpus gives \<open>VersionNotFound\<close> for \<open>latest\<close>; a
  corpus with no such version gives \<open>PackageNotFound\<close> with the finder's kind, OS and
  architecture.
\<close>

theorem Find_latest:
  "Find NewConstraint Check fdr ''latest'' =
     (if items fdr = [] then Inl (VersionNotFoundError ''latest'' (goos fdr) (goarch fdr))
      else (case find (\<lambda>v. match v (goos fdr) (goarch fdr)) (rev (items fdr)) of
              Some v \<Rightarrow> Inr v
            | None \<Rightarrow> Inl (PackageNotFoundError (kind fdr) (goos fdr) (goarch fdr))))
   \<and> match v os arch =
       (\<exists>p \<in> set (pkgs v). sublist os (FileName p) \<and> sublist arch (FileName p))"
  by (simp add: Find_def Latest_def findLatest_def latestLoop_find match_def matchPkgs_iff
      Contains_iff_sublist)

section \<open>Facts about the small corpus\<close>

lemma fixture_match:
  "\<not> match go1_18_10 ''darwin'' ''arm64''" "match go1_19_0 ''darwin'' ''arm64''"
  "match go1_20_0 ''darwin'' ''arm64''" "match go1_20_1 ''darwin'' ''arm64''"
  "\<not> match go1_21_0 ''darwin'' ''arm64''"
  by code_simp+

lemma fixture_name:
  "name go1_18_10 = ''1.18.10''" "name go1_19_0 = ''1.19.0''" "name go1_20_0 = ''1.20.0''"
  "name go1_20_1 = ''1.20.1''" "name go1_21_0 = ''1.21.0''"
  by (simp_all add: go1_18_10_def go1_19_0_def go1_20_0_def go1_20_1_def go1_21_0_def)

lemma fixture_sv:
  "sv go1_18_10 = (1, 18, 10)" "sv go1_19_0 = (1, 19, 0)" "sv go1_20_0 = (1, 20, 0)"
  "sv go1_20_1 = (1, 20, 1)" "sv go1_21_0 = (1, 21, 0)"
  by (simp_all add: go1_18_10_def go1_19_0_def go1_20_0_def go1_20_1_def go1_21_0_def)

lemma fixture_finder:
  "items fixtureFinder = [go1_18_10, go1_19_0, go1_20_0, go1_20_1, go1_21_0]"
  "goos fixtureFinder = ''darwin''" "goarch fixtureFinder = ''arm64''"
  "kind fixtureFinder = ''Archive''"
  by (simp_all add: fixtureFinder_def fixtureItems_def ArchiveKind_def)

lemmas fixture_eval = fixture_match fixture_name fixture_sv fixture_finder
  fixtureNewConstraint_def fixtureCheck_def fixtureLess_def

section \<open>The two passes of the finder\<close>

lemma find_rev_sorted_max:
  "sorted_wrt R xs \<Longrightarrow> find P (rev xs) = Some v \<Longrightarrow> w \<in> set xs \<Longrightarrow> P w \<Longrightarrow> w = v \<or> R w v"
proof (induction xs rule: rev_induct)
  case Nil
  then show ?case by simp
next
  case (snoc x xs)
  show ?case
  proof (cases "P x")
    case True
    with snoc.prems have "v = x" by simp
    with snoc.prems show ?thesis by (auto simp: sorted_wrt_append)
  next
    case False
    with snoc.prems have f: "find P (rev xs) = Some v" and w: "w \<in> set xs"
      by auto
    from snoc.prems have "sorted_wrt R xs" by (simp add: sorted_wrt_append)
    from snoc.IH[OF this f w snoc.prems(4)] show ?thesis .
  qed
qed

lemma find_Some_holds: "find P xs = Some v \<Longrightarrow> P v \<and> v \<in> set xs"
  by (auto simp: find_Some_iff)

lemma Find_not_latest:
  "vname \<noteq> ''latest'' \<Longrightarrow>
   Find NewConstraint Check fdr vname =
     (case find (\<lambda>v. name v = vname \<and> match v (goos fdr) (goarch fdr)) (rev (items fdr)) of
        Some v \<Rightarrow> Inr v
      | None \<Rightarrow>
         (case NewConstraint vname of
            None \<Rightarrow> Inl (VersionNotFoundError vname (goos fdr) (goarch fdr))
          | Some cs \<Rightarrow>
             (case find (\<lambda>v. Check cs (sv v) \<and> match v (goos fdr) (goarch fdr)) (rev (items fdr)) of
                Some v \<Rightarrow> Inr v
              | None \<Rightarrow>
                 (if \<exists>v \<in> set (items fdr). Check cs (sv v)
                  then Inl (PackageNotFoundError (kind fdr) (goos fdr) (goarch fdr))
                  else Inl (VersionNotFoundError vname (goos fdr) (goarch fdr))))))"
  by (simp add: Find_def Latest_def exactLoop_find constraintLoop_find split: option.splits)

text \<open>
  C1. Let the expression differ from \<open>latest\<close> and let no version carry it as its name
  together with a package for the target platform. If the expression does not parse as a
  constraint, \<open>Find\<close> returns \<open>VersionNotFound\<close> for the expression. If it parses, some
  version satisfies the constraint and none of the satisfying versions has a package for
  the platform, \<open>Find\<close> returns \<open>PackageNotFound\<close> for the finder's kind and platform. If
  it parses and no version satisfies the constraint, \<open>Find\<close> returns \<open>VersionNotFound\<close>.
  This holds for every corpus, sorted or not.
\<close>

theorem Find_errors:
  assumes "vname \<noteq> ''latest''"
    and "\<forall>v \<in> set (items fdr). \<not> (name v = vname \<and> match v (goos fdr) (goarch fdr))"
  shows "(NewConstraint vname = None \<longrightarrow>
            Find NewConstraint Check fdr vname
              = Inl (VersionNotFoundError vname (goos fdr) (goarch fdr)))
       \<and> (\<forall>cs. NewConstraint vname = Some cs \<longrightarrow>
            ((\<exists>v \<in> set (items fdr). Check cs (sv v))
              \<and> (\<forall>v \<in> set (items fdr). Check cs (sv v) \<longrightarrow> \<not> match v (goos fdr) (goarch fdr))
              \<longrightarrow> Find NewConstraint Check fdr vname
                    = Inl (PackageNotFoundError (kind fdr) (goos fdr) (goarch fdr)))
          \<and> ((\<forall>v \<in> set (items fdr). \<not> Check cs (sv v))
              \<longrightarrow> Find NewConstraint Check fdr vname
                    = Inl (VersionNotFoundError vname (goos fdr) (goarch fdr))))"
proof -
  from assms(2)
  have ex: "find (\<lambda>v. name v = vname \<and> match v (goos fdr) (goarch fdr)) (rev (items fdr)) = None"
    by (simp add: find_None_iff)
  have pnf: "find (\<lambda>v. Check cs (sv v) \<and> match v (goos fdr) (goarch fdr)) (rev (items fdr)) = None"
    if "\<forall>v \<in> set (items fdr). Check cs (sv v) \<longrightarrow> \<not> match v (goos fdr) (goarch fdr)" for cs
    using that by (simp add: find_None_iff)
  show ?thesis
    using pnf by (auto simp: Find_not_latest[OF assms(1)] ex)
qed

theorem Find_errors_witness:
  "Find fixtureNewConstraint fixtureCheck fixtureFinder ''voidint''
     = Inl (VersionNotFoundError ''voidint'' ''darwin'' ''arm64'')
   \<and> Find fixtureNewConstraint fixtureCheck fixtureFinder ''~1.18''
     = Inl (PackageNotFoundError ''Archive'' ''darwin'' ''arm64'')
   \<and> Find fixtureNewConstraint fixtureCheck fixtureFinder ''~1.15''
     = Inl (VersionNotFoundError ''~1.15'' ''darwin'' ''arm64'')"
proof -
  have noexact: "\<forall>v \<in> set (items fixtureFinder).
      \<not> (name v = vname \<and> match v (goos fixtureFinder) (goarch fixtureFinder))"
    if "vname \<in> {''voidint'', ''~1.18'', ''~1.15''}" for vname
    using that by (auto simp: fixture_eval)
  have a: "Find fixtureNewConstraint fixtureCheck fixtureFinder ''voidint''
     = Inl (VersionNotFoundError ''voidint'' ''darwin'' ''arm64'')"
    using Find_errors[OF _ noexact, of "''voidint''" fixtureNewConstraint fixtureCheck]
    by (simp add: fixtureNewConstraint_def fixture_finder)
  have b: "Find fixtureNewConstraint fixtureCheck fixtureFinder ''~1.18''
     = Inl (PackageNotFoundError ''Archive'' ''darwin'' ''arm64'')"
    using Find_errors[OF _ noexact, of "''~1.18''" fixtureNewConstraint fixtureCheck]
    by (simp add: fixture_eval)
  have c: "Find fixtureNewConstraint fixtureCheck fixtureFinder ''~1.15''
     = Inl (VersionNotFoundError ''~1.15'' ''darwin'' ''arm64'')"
    using Find_errors[OF _ noexact, of "''~1.15''" fixtureNewConstraint fixtureCheck]
    by (simp add: fixture_eval)
  from a b c show ?thesis by simp
qed


text \<open>
  C2. Let the expression differ from \<open>latest\<close> and let the corpus be sorted ascending by
  \<open>LessThan\<close>. \<open>Find\<close> returns the first version, from the highest index down, whose name is
  the expression and which has a package for the platform: a version of that name without
  such a package is passed over. Only when there is none does it parse the expression, and
  then it returns the first version from the highest index down that satisfies the
  constraint and has a package for the platform. In both passes the version returned is a
  highest one: no other version of the corpus that meets the pass's two conditions is
  above it.
\<close>

theorem Find_highest:
  assumes "vname \<noteq> ''latest''"
    and "sorted_wrt (\<lambda>a b. \<not> LessThan (sv b) (sv a)) (items fdr)"
  shows "Find NewConstraint Check fdr vname =
     (case find (\<lambda>v. name v = vname \<and> match v (goos fdr) (goarch fdr)) (rev (items fdr)) of
        Some v \<Rightarrow> Inr v
      | None \<Rightarrow>
         (case NewConstraint vname of
            None \<Rightarrow> Inl (VersionNotFoundError vname (goos fdr) (goarch fdr))
          | Some cs \<Rightarrow>
             (case find (\<lambda>v. Check cs (sv v) \<and> match v (goos fdr) (goarch fdr)) (rev (items fdr)) of
                Some v \<Rightarrow> Inr v
              | None \<Rightarrow>
                 (if \<exists>v \<in> set (items fdr). Check cs (sv v)
                  then Inl (PackageNotFoundError (kind fdr) (goos fdr) (goarch fdr))
                  else Inl (VersionNotFoundError vname (goos fdr) (goarch fdr))))))
   \<and> (\<forall>v. Find NewConstraint Check fdr vname = Inr v \<longrightarrow>
         v \<in> set (items fdr) \<and> match v (goos fdr) (goarch fdr)
       \<and> ((name v = vname
            \<and> (\<forall>w \<in> set (items fdr). name w = vname \<and> match w (goos fdr) (goarch fdr)
                  \<longrightarrow> w = v \<or> \<not> LessThan (sv v) (sv w)))
          \<or> ((\<forall>w \<in> set (items fdr). \<not> (name w = vname \<and> match w (goos fdr) (goarch fdr)))
            \<and> (\<exists>cs. NewConstraint vname = Some cs \<and> Check cs (sv v)
                \<and> (\<forall>w \<in> set (items fdr). Check cs (sv w) \<and> match w (goos fdr) (goarch fdr)
                      \<longrightarrow> w = v \<or> \<not> LessThan (sv v) (sv w))))))"
proof (intro conjI allI impI)
  show "Find NewConstraint Check fdr vname =
     (case find (\<lambda>v. name v = vname \<and> match v (goos fdr) (goarch fdr)) (rev (items fdr)) of
        Some v \<Rightarrow> Inr v
      | None \<Rightarrow>
         (case NewConstraint vname of
            None \<Rightarrow> Inl (VersionNotFoundError vname (goos fdr) (goarch fdr))
          | Some cs \<Rightarrow>
             (case find (\<lambda>v. Check cs (sv v) \<and> match v (goos fdr) (goarch fdr)) (rev (items fdr)) of
                Some v \<Rightarrow> Inr v
              | None \<Rightarrow>
                 (if \<exists>v \<in> set (items fdr). Check cs (sv v)
                  then Inl (PackageNotFoundError (kind fdr) (goos fdr) (goarch fdr))
                  else Inl (VersionNotFoundError vname (goos fdr) (goarch fdr))))))"
    by (rule Find_not_latest[OF assms(1)])
next
  fix v
  assume r: "Find NewConstraint Check fdr vname = Inr v"
  let ?E = "\<lambda>v. name v = vname \<and> match v (goos fdr) (goarch fdr)"
  show "v \<in> set (items fdr)"
    using r by (auto simp: Find_not_latest[OF assms(1)] split: option.splits if_splits dest: find_Some_holds)
  show "match v (goos fdr) (goarch fdr)"
    using r by (auto simp: Find_not_latest[OF assms(1)] split: option.splits if_splits dest: find_Some_holds)
  show "(name v = vname
            \<and> (\<forall>w \<in> set (items fdr). name w = vname \<and> match w (goos fdr) (goarch fdr)
                  \<longrightarrow> w = v \<or> \<not> LessThan (sv v) (sv w)))
          \<or> ((\<forall>w \<in> set (items fdr). \<not> (name w = vname \<and> match w (goos fdr) (goarch fdr)))
            \<and> (\<exists>cs. NewConstraint vname = Some cs \<and> Check cs (sv v)
                \<and> (\<forall>w \<in> set (items fdr). Check cs (sv w) \<and> match w (goos fdr) (goarch fdr)
                      \<longrightarrow> w = v \<or> \<not> LessThan (sv v) (sv w))))"
  proof (cases "find ?E (rev (items fdr))")
    case (Some u)
    with r have uv: "u = v" by (simp add: Find_not_latest[OF assms(1)])
    from Some uv have "name v = vname" by (auto dest: find_Some_holds)
    moreover have "w = v \<or> \<not> LessThan (sv v) (sv w)"
      if "w \<in> set (items fdr)" "?E w" for w
      using find_rev_sorted_max[OF assms(2) Some[unfolded uv] that] .
    ultimately show ?thesis by blast
  next
    case None
    then have noex: "\<forall>w \<in> set (items fdr). \<not> ?E w" by (simp add: find_None_iff)
    from r None obtain cs where cs: "NewConstraint vname = Some cs"
      and f: "find (\<lambda>v. Check cs (sv v) \<and> match v (goos fdr) (goarch fdr)) (rev (items fdr)) = Some v"
      by (auto simp: Find_not_latest[OF assms(1)] split: option.splits if_splits)
    from f have "Check cs (sv v)" by (auto dest: find_Some_holds)
    moreover have "w = v \<or> \<not> LessThan (sv v) (sv w)"
      if "w \<in> set (items fdr)" "Check cs (sv w) \<and> match w (goos fdr) (goarch fdr)" for w
      using find_rev_sorted_max[OF assms(2) f that] .
    ultimately show ?thesis using noex cs by blast
  qed
qed


theorem Find_highest_witness:
  "sorted_wrt (\<lambda>a b. \<not> fixtureLess (sv b) (sv a)) (items fixtureFinder)
   \<and> Find fixtureNewConstraint fixtureCheck fixtureFinder ''1.20.0'' = Inr go1_20_0
   \<and> Find fixtureNewConstraint fixtureCheck fixtureFinder ''~1.20'' = Inr go1_20_1"
proof -
  have s: "sorted_wrt (\<lambda>a b. \<not> fixtureLess (sv b) (sv a)) (items fixtureFinder)"
    by (simp add: fixture_eval)
  have a: "Find fixtureNewConstraint fixtureCheck fixtureFinder ''1.20.0'' = Inr go1_20_0"
    using Find_highest[OF _ s, of "''1.20.0''" fixtureNewConstraint fixtureCheck]
    by (simp add: fixture_eval)
  have b: "Find fixtureNewConstraint fixtureCheck fixtureFinder ''~1.20'' = Inr go1_20_1"
    using Find_highest[OF _ s, of "''~1.20''" fixtureNewConstraint fixtureCheck]
    by (simp add: fixture_eval)
  from s a b show ?thesis by simp
qed

section \<open>Facts about the grouping loop\<close>

lemma convertItem_slice:
  "convertItem osVisit archVisit m pitem = Inr m' \<Longrightarrow>
   slice m' ver =
     (if getGoVersion pitem = Inr ver
      then (if isPackageFile pitem then slice m ver @ [newPackage osVisit archVisit pitem]
            else if isSHA256File pitem then map (setChecksum pitem) (slice m ver)
            else slice m ver)
      else slice m ver)"
  by (auto simp: convertItem_def Let_def slice_def split: sum.splits if_splits option.splits)

lemma FileName_setChecksum: "FileName (setChecksum pitem ppkg) = FileName ppkg"
  by (simp add: setChecksum_def)

lemma Kind_setChecksum: "Kind (setChecksum pitem ppkg) = Kind ppkg"
  by (simp add: setChecksum_def)

lemma convertLoop_names:
  "convertLoop osVisit archVisit i m its = Inr m' \<Longrightarrow>
   map (\<lambda>p. (FileName p, Kind p)) (slice m' ver)
     = map (\<lambda>p. (FileName p, Kind p)) (slice m ver)
       @ map (\<lambda>item. (ItemFileName item, getKind item))
           (filter (\<lambda>item. isPackageFile item \<and> getGoVersion item = Inr ver) its)"
proof (induction its arbitrary: i m)
  case Nil
  then show ?case by simp
next
  case (Cons x rest)
  from Cons.prems obtain m1 where
    s: "convertItem (osVisit i) (archVisit i) m x = Inr m1"
    and r: "convertLoop osVisit archVisit (Suc i) m1 rest = Inr m'"
    by (auto split: sum.splits)
  from Cons.IH[OF r] convertItem_slice[OF s, of ver] show ?case
    by (simp add: newPackage_def FileName_setChecksum Kind_setChecksum comp_def)
qed

lemma newVersions_Inr:
  "newVersions NewVersion m keys = Inr vers \<Longrightarrow>
   map name vers = keys \<and> (\<forall>v \<in> set vers. pkgs v = slice m (name v))"
proof (induction keys arbitrary: vers)
  case Nil
  then show ?case by simp
next
  case (Cons k keys)
  then show ?case
    by (auto simp: New_def split: sum.splits)
qed

lemma Convert2Versions_Inr:
  "Convert2Versions NewVersion sortCollection keysOf osVisit archVisit its = Inr vers \<Longrightarrow>
   \<exists>m vs. convertLoop osVisit archVisit 0 Map.empty its = Inr m
     \<and> newVersions NewVersion m (keysOf m) = Inr vs \<and> vers = sortCollection vs"
  by (auto simp: Convert2Versions_def split: sum.splits)

lemma getKind_Unknown_iff: "(getKind item = ''Unknown'') = (\<not> isPackageFile item)"
proof -
  have "suffix ''.tar.gz'' s" if "suffix ''.src.tar.gz'' s" for s :: string
  proof -
    have "suffix ''.tar.gz'' ''.src.tar.gz''" by code_simp
    from this that show ?thesis by (rule suffix_order.trans)
  qed
  then show ?thesis
    by (auto simp: getKind_def isPackageFile_def HasSuffix_def SourceKind_def ArchiveKind_def
        InstallerKind_def)
qed

lemma Convert2Versions_pkgs:
  assumes c: "Convert2Versions NewVersion sortCollection keysOf osVisits archVisits its = Inr vers"
    and srt: "\<forall>vs. set (sortCollection vs) = set vs"
    and v: "v \<in> set vers"
  shows "\<exists>m. convertLoop osVisits archVisits 0 Map.empty its = Inr m \<and> pkgs v = slice m (name v)"
proof -
  from Convert2Versions_Inr[OF c] obtain m vs where
    l: "convertLoop osVisits archVisits 0 Map.empty its = Inr m"
    and n: "newVersions NewVersion m (keysOf m) = Inr vs" and s: "vers = sortCollection vs"
    by blast
  from v s srt have "v \<in> set vs" by simp
  with newVersions_Inr[OF n] have "pkgs v = slice m (name v)" by blast
  with l show ?thesis by blast
qed

section \<open>The filename decoder on the spec's examples\<close>

lemma byteAt_0: "byteAt s 0 = (if s = [] then Inl PanicIndexOutOfRange else Inr (hd s))"
  by (cases s) (simp_all add: byteAt_def)

lemma getGoVersion_FileName:
  "ItemFileName a = ItemFileName b \<Longrightarrow> getGoVersion a = getGoVersion b"
  by (simp add: getGoVersion_def)

lemma firstContained_only:
  "\<forall>(k, v') \<in> set visit. Contains fn k \<longrightarrow> v' = v \<Longrightarrow>
   \<exists>(k, v') \<in> set visit. Contains fn k \<Longrightarrow> firstContained visit fn = v"
  by (induction visit fn rule: firstContained.induct) auto

lemma linux_amd64_os:
  "list_all (\<lambda>(k, v'). Contains ''go1.21.4.linux-amd64.tar.gz'' k \<longrightarrow> v' = ''Linux'') osMapping"
  "list_ex (\<lambda>(k, v'). Contains ''go1.21.4.linux-amd64.tar.gz'' k) osMapping"
  by code_simp+

lemma linux_amd64_arch:
  "list_all (\<lambda>(k, v'). Contains ''go1.21.4.linux-amd64.tar.gz'' k \<longrightarrow> v' = ''x86-64'') archMapping"
  "list_ex (\<lambda>(k, v'). Contains ''go1.21.4.linux-amd64.tar.gz'' k) archMapping"
  by code_simp+

lemma linux_amd64_version:
  "getGoVersion \<lparr>ItemFileName = ''go1.21.4.linux-amd64.tar.gz'', ItemURL = [], ItemSize = []\<rparr>
     = Inr ''1.21.4''"
  by code_simp

lemma suffix_kinds:
  "suffix ''.src.tar.gz'' ''go1.21.4.src.tar.gz''"
  "\<not> suffix ''.src.tar.gz'' ''go1.21.4.linux-amd64.tar.gz''"
  "suffix ''.tar.gz'' ''go1.21.4.linux-amd64.tar.gz''"
  by code_simp+

text \<open>
  C4, as amended. The file name \<open>go1.21.4.linux-amd64.tar.gz\<close> decodes to the version
  \<open>1.21.4\<close>, the OS label \<open>Linux\<close>, the architecture label \<open>x86-64\<close> and the kind
  \<open>Archive\<close>, in whatever order the two token tables are visited;
  \<open>go1.21.4.src.tar.gz\<close> has the kind \<open>Source\<close>. For every file name \<open>getKind\<close> goes by
  the suffix: \<open>.src.tar.gz\<close> is \<open>Source\<close>, \<open>.tar.gz\<close> and \<open>.zip\<close> are \<open>Archive\<close>,
  \<open>.pkg\<close> and \<open>.msi\<close> are \<open>Installer\<close>, and every other name gets the string \<open>Unknown\<close>.
  That string never reaches a package: \<open>getKind\<close> gives \<open>Unknown\<close> exactly for the names
  that \<open>isPackageFile\<close> rejects, and \<open>Convert2Versions\<close> builds its packages from the
  records that \<open>isPackageFile\<close> accepts and from no other. The packages of every version
  it returns are, by file name and kind and in the order of the listing, the package
  files with that version string; a record with any other suffix is filtered out. The
  sort is taken to return the versions it is given, in some order.
\<close>

theorem decode_example_and_kind:
  "(visits osMapping osVisit \<and> visits archMapping archVisit \<longrightarrow>
      getGoVersion \<lparr>ItemFileName = ''go1.21.4.linux-amd64.tar.gz'', ItemURL = url, ItemSize = sz\<rparr>
        = Inr ''1.21.4''
      \<and> getOS osVisit \<lparr>ItemFileName = ''go1.21.4.linux-amd64.tar.gz'', ItemURL = url, ItemSize = sz\<rparr>
        = ''Linux''
      \<and> getArch archVisit \<lparr>ItemFileName = ''go1.21.4.linux-amd64.tar.gz'', ItemURL = url, ItemSize = sz\<rparr>
        = ''x86-64''
      \<and> getKind \<lparr>ItemFileName = ''go1.21.4.linux-amd64.tar.gz'', ItemURL = url, ItemSize = sz\<rparr>
        = ArchiveKind)
   \<and> getKind \<lparr>ItemFileName = ''go1.21.4.src.tar.gz'', ItemURL = url, ItemSize = sz\<rparr> = SourceKind
   \<and> getKind item =
       (if suffix ''.src.tar.gz'' (ItemFileName item) then ''Source''
        else if suffix ''.tar.gz'' (ItemFileName item) \<or> suffix ''.zip'' (ItemFileName item)
          then ''Archive''
        else if suffix ''.pkg'' (ItemFileName item) \<or> suffix ''.msi'' (ItemFileName item)
          then ''Installer''
        else ''Unknown'')
   \<and> (getKind item = ''Unknown'') = (\<not> isPackageFile item)
   \<and> (Convert2Versions NewVersion sortCollection keysOf osVisits archVisits its = Inr vers
        \<and> (\<forall>vs. set (sortCollection vs) = set vs)
      \<longrightarrow> (\<forall>v \<in> set vers.
             map (\<lambda>p. (FileName p, Kind p)) (pkgs v)
               = map (\<lambda>item. (ItemFileName item, getKind item))
                   (filter (\<lambda>item. isPackageFile item \<and> getGoVersion item = Inr (name v)) its)
             \<and> (\<forall>p \<in> set (pkgs v). Kind p \<noteq> ''Unknown'')))"
proof (intro conjI impI ballI)
  let ?it = "\<lparr>ItemFileName = ''go1.21.4.linux-amd64.tar.gz'', ItemURL = url, ItemSize = sz\<rparr>"
  show "getGoVersion ?it = Inr ''1.21.4''"
    if "visits osMapping osVisit \<and> visits archMapping archVisit"
    using getGoVersion_FileName[of ?it
        "\<lparr>ItemFileName = ''go1.21.4.linux-amd64.tar.gz'', ItemURL = [], ItemSize = []\<rparr>"]
    by (simp add: linux_amd64_version)
  show "getKind ?it = ArchiveKind"
    if "visits osMapping osVisit \<and> visits archMapping archVisit"
    by (simp add: getKind_def HasSuffix_def suffix_kinds)
  show "getKind \<lparr>ItemFileName = ''go1.21.4.src.tar.gz'', ItemURL = url, ItemSize = sz\<rparr> = SourceKind"
    by (simp add: getKind_def HasSuffix_def suffix_kinds)
  show "getKind item =
       (if suffix ''.src.tar.gz'' (ItemFileName item) then ''Source''
        else if suffix ''.tar.gz'' (ItemFileName item) \<or> suffix ''.zip'' (ItemFileName item)
          then ''Archive''
        else if suffix ''.pkg'' (ItemFileName item) \<or> suffix ''.msi'' (ItemFileName item)
          then ''Installer''
        else ''Unknown'')"
    by (simp add: getKind_def HasSuffix_def SourceKind_def ArchiveKind_def InstallerKind_def)
  show "(getKind item = ''Unknown'') = (\<not> isPackageFile item)"
    by (rule getKind_Unknown_iff)
next
  assume v: "visits osMapping osVisit \<and> visits archMapping archVisit"
  let ?it = "\<lparr>ItemFileName = ''go1.21.4.linux-amd64.tar.gz'', ItemURL = url, ItemSize = sz\<rparr>"
  from v have so: "set osVisit = set osMapping" and sa: "set archVisit = set archMapping"
    by (simp_all add: visits_def)
  show "getOS osVisit ?it = ''Linux''"
    unfolding getOS_def using linux_amd64_os
    by (intro firstContained_only) (simp_all add: so list_all_iff list_ex_iff)
  show "getArch archVisit ?it = ''x86-64''"
    unfolding getArch_def using linux_amd64_arch
    by (intro firstContained_only) (simp_all add: sa list_all_iff list_ex_iff)
next
  fix v
  assume h: "Convert2Versions NewVersion sortCollection keysOf osVisits archVisits its = Inr vers
        \<and> (\<forall>vs. set (sortCollection vs) = set vs)"
    and v: "v \<in> set vers"
  from Convert2Versions_pkgs[OF h[THEN conjunct1] h[THEN conjunct2] v] obtain pm where
    l: "convertLoop osVisits archVisits 0 Map.empty its = Inr pm" and p: "pkgs v = slice pm (name v)"
    by blast
  from convertLoop_names[OF l, of "name v"] p
  show n: "map (\<lambda>p. (FileName p, Kind p)) (pkgs v)
               = map (\<lambda>item. (ItemFileName item, getKind item))
                   (filter (\<lambda>item. isPackageFile item \<and> getGoVersion item = Inr (name v)) its)"
    by (simp add: slice_def)
  fix q
  assume "q \<in> set (pkgs v)"
  then have "(FileName q, Kind q) \<in> set (map (\<lambda>p. (FileName p, Kind p)) (pkgs v))"
    by force
  with n obtain item where "isPackageFile item" "Kind q = getKind item"
    by auto
  with getKind_Unknown_iff[of item] show "Kind q \<noteq> ''Unknown''"
    by simp
qed

lemma visits_rev: "distinct m \<Longrightarrow> visits m (rev m)"
  by (simp add: visits_def)

lemma distinct_tables: "distinct osMapping" "distinct archMapping"
  by code_simp+

lemma mixed_facts:
  "getKind (listed ''go1.21.4.linux-amd64.tar.gz.asc'') = ''Unknown''"
  "\<not> isPackageFile (listed ''go1.21.4.linux-amd64.tar.gz.asc'')"
  "getGoVersion (listed ''go1.21.4.linux-amd64.tar.gz.asc'') = Inr ''1.21.4''"
  "keepsRow ''go1.21.4.linux-amd64.tar.gz.asc''"
  "Convert2Versions Some id (\<lambda>pm. [''1.21.4'']) (\<lambda>i. osMapping) (\<lambda>i. archMapping) mixedListing
     = Inr [\<lparr>name = ''1.21.4'', sv = ''1.21.4'', pkgs = [pkgLinux]\<rparr>]"
  "Convert2Versions Some id (\<lambda>pm. [''1.21.4'']) (\<lambda>i. osMapping) (\<lambda>i. archMapping)
     [listed ''go1.21.4.linux-amd64.tar.gz.asc'']
     = Inr [\<lparr>name = ''1.21.4'', sv = ''1.21.4'', pkgs = []\<rparr>]"
  "map (\<lambda>item. (ItemFileName item, getKind item))
     (filter (\<lambda>item. isPackageFile item \<and> getGoVersion item = Inr ''1.21.4'') mixedListing)
     = [(''go1.21.4.linux-amd64.tar.gz'', ''Archive'')]"
  "Kind pkgLinux = ''Archive''" "FileName pkgLinux = ''go1.21.4.linux-amd64.tar.gz''"
  by code_simp+

theorem decode_example_and_kind_witness:
  "visits osMapping (rev osMapping) \<and> visits archMapping (rev archMapping)
   \<and> getGoVersion \<lparr>ItemFileName = ''go1.21.4.linux-amd64.tar.gz'', ItemURL = ''u'', ItemSize = ''65MB''\<rparr>
        = Inr ''1.21.4''
   \<and> getOS (rev osMapping) \<lparr>ItemFileName = ''go1.21.4.linux-amd64.tar.gz'', ItemURL = ''u'', ItemSize = ''65MB''\<rparr>
        = ''Linux''
   \<and> getArch (rev archMapping) \<lparr>ItemFileName = ''go1.21.4.linux-amd64.tar.gz'', ItemURL = ''u'', ItemSize = ''65MB''\<rparr>
        = ''x86-64''
   \<and> getKind \<lparr>ItemFileName = ''go1.21.4.linux-amd64.tar.gz'', ItemURL = ''u'', ItemSize = ''65MB''\<rparr>
        = ''Archive''
   \<and> Convert2Versions Some id (\<lambda>pm. [''1.21.4'']) (\<lambda>i. osMapping) (\<lambda>i. archMapping) mixedListing
        = Inr [\<lparr>name = ''1.21.4'', sv = ''1.21.4'', pkgs = [pkgLinux]\<rparr>]
   \<and> [(FileName pkgLinux, Kind pkgLinux)]
        = map (\<lambda>item. (ItemFileName item, getKind item))
            (filter (\<lambda>item. isPackageFile item \<and> getGoVersion item = Inr ''1.21.4'') mixedListing)
   \<and> Kind pkgLinux \<noteq> ''Unknown''"
proof -
  let ?V = "\<lparr>name = ''1.21.4'', sv = ''1.21.4'', pkgs = [pkgLinux]\<rparr>"
  have v: "visits osMapping (rev osMapping) \<and> visits archMapping (rev archMapping)"
    using visits_rev[OF distinct_tables(1)] visits_rev[OF distinct_tables(2)] by simp
  from decode_example_and_kind[of "rev osMapping" "rev archMapping" "''u''" "''65MB''",
      THEN conjunct1, THEN mp, OF v] v
  have a: "visits osMapping (rev osMapping) \<and> visits archMapping (rev archMapping)
   \<and> getGoVersion \<lparr>ItemFileName = ''go1.21.4.linux-amd64.tar.gz'', ItemURL = ''u'', ItemSize = ''65MB''\<rparr>
        = Inr ''1.21.4''
   \<and> getOS (rev osMapping) \<lparr>ItemFileName = ''go1.21.4.linux-amd64.tar.gz'', ItemURL = ''u'', ItemSize = ''65MB''\<rparr>
        = ''Linux''
   \<and> getArch (rev archMapping) \<lparr>ItemFileName = ''go1.21.4.linux-amd64.tar.gz'', ItemURL = ''u'', ItemSize = ''65MB''\<rparr>
        = ''x86-64''
   \<and> getKind \<lparr>ItemFileName = ''go1.21.4.linux-amd64.tar.gz'', ItemURL = ''u'', ItemSize = ''65MB''\<rparr>
        = ''Archive''"
    by (simp add: ArchiveKind_def)
  note c = mixed_facts(5)
  have srt: "\<forall>vs :: string Version list. set (id vs) = set vs"
    by simp
  have mem: "?V \<in> set [?V]"
    by simp
  note t = decode_example_and_kind[where its = mixedListing and NewVersion = Some
      and sortCollection = id and keysOf = "\<lambda>pm :: pkgMap. [''1.21.4'']"
      and osVisits = "\<lambda>i. osMapping" and archVisits = "\<lambda>i. archMapping" and vers = "[?V]",
      THEN conjunct2, THEN conjunct2, THEN conjunct2, THEN conjunct2, THEN mp,
      OF conjI[OF c srt], THEN bspec, OF mem]
  from t[THEN conjunct1]
  have b: "[(FileName pkgLinux, Kind pkgLinux)]
        = map (\<lambda>item. (ItemFileName item, getKind item))
            (filter (\<lambda>item. isPackageFile item \<and> getGoVersion item = Inr ''1.21.4'') mixedListing)"
    by (simp only: Version.select_convs list.map)
  from t[THEN conjunct2]
  have d: "Kind pkgLinux \<noteq> ''Unknown''"
    by simp
  from a c b d show ?thesis by blast
qed

theorem decode_example_and_kind_counterexample:
  "getKind (listed ''go1.21.4.linux-amd64.tar.gz.asc'') = ''Unknown''
   \<and> keepsRow ''go1.21.4.linux-amd64.tar.gz.asc''
   \<and> getGoVersion (listed ''go1.21.4.linux-amd64.tar.gz.asc'') = Inr ''1.21.4''
   \<and> Convert2Versions Some id (\<lambda>pm. [''1.21.4'']) (\<lambda>i. osMapping) (\<lambda>i. archMapping)
        [listed ''go1.21.4.linux-amd64.tar.gz.asc'']
        = Inr [\<lparr>name = ''1.21.4'', sv = ''1.21.4'', pkgs = []\<rparr>]
   \<and> Convert2Versions Some id (\<lambda>pm. [''1.21.4'']) (\<lambda>i. osMapping) (\<lambda>i. archMapping)
        [listed ''go1.21.4.linux-amd64.tar.gz'', listed ''go1.21.4.linux-amd64.tar.gz.asc'']
        = Inr [\<lparr>name = ''1.21.4'', sv = ''1.21.4'', pkgs = [pkgLinux]\<rparr>]
   \<and> Kind pkgLinux = ''Archive''"
  using mixed_facts by (simp add: mixedListing_def)

section \<open>Version extraction\<close>

lemma getGoVersion_panic_iff:
  "getGoVersion item = Inl PanicIndexOutOfRange \<longleftrightarrow>
     (let arr = Split (TrimPrefix (ItemFileName item) ''go'') (CHR ''.'')
      in 3 \<le> length arr
         \<and> (arr ! 0 = []
            \<or> (IsNumber (hd (arr ! 0))
                \<and> (arr ! 2 = [] \<or> (\<not> IsNumber (hd (arr ! 2)) \<and> arr ! 1 = [])))))"
  by (auto simp: getGoVersion_def Let_def byteAt_0)

lemma getGoVersion_total:
  "getGoVersion item = Inl PanicIndexOutOfRange \<or> (\<exists>v. getGoVersion item = Inr v)"
  by (auto simp: getGoVersion_def Let_def byteAt_0)

lemma panic_examples:
  "getGoVersion \<lparr>ItemFileName = ''go.1.2.3'', ItemURL = [], ItemSize = []\<rparr> = Inl PanicIndexOutOfRange"
  "getGoVersion \<lparr>ItemFileName = ''go1.2..tar.gz'', ItemURL = [], ItemSize = []\<rparr> = Inl PanicIndexOutOfRange"
  "keepsRow ''go.1.2.3''" "keepsRow ''go1.2..tar.gz''"
  by code_simp+

text \<open>
  C9. \<open>getGoVersion\<close> is not total. The names \<open>go.1.2.3\<close> and \<open>go1.2..tar.gz\<close> pass the
  adapters' filter, and on both the function reads the first byte of an empty component,
  which is a panic. It panics exactly when there are at least three components and the
  first is empty, or the first starts with a number and the third is empty, or the first
  starts with a number, the third does not and the second is empty. In every other case,
  so whenever none of the first three components is empty, it returns a string.
\<close>

theorem getGoVersion_panics:
  "keepsRow ''go.1.2.3'' \<and> keepsRow ''go1.2..tar.gz''
   \<and> getGoVersion \<lparr>ItemFileName = ''go.1.2.3'', ItemURL = url, ItemSize = sz\<rparr>
       = Inl PanicIndexOutOfRange
   \<and> getGoVersion \<lparr>ItemFileName = ''go1.2..tar.gz'', ItemURL = url, ItemSize = sz\<rparr>
       = Inl PanicIndexOutOfRange
   \<and> (let arr = Split (TrimPrefix (ItemFileName item) ''go'') (CHR ''.'')
      in (getGoVersion item = Inl PanicIndexOutOfRange)
           = (3 \<le> length arr
              \<and> (arr ! 0 = []
                 \<or> (IsNumber (hd (arr ! 0))
                     \<and> (arr ! 2 = [] \<or> (\<not> IsNumber (hd (arr ! 2)) \<and> arr ! 1 = [])))))
         \<and> (\<exists>v. getGoVersion item = Inr v) = (getGoVersion item \<noteq> Inl PanicIndexOutOfRange)
         \<and> ([] \<notin> set (take 3 arr) \<longrightarrow> (\<exists>v. getGoVersion item = Inr v)))"
proof -
  let ?arr = "Split (TrimPrefix (ItemFileName item) ''go'') (CHR ''.'')"
  have a: "getGoVersion \<lparr>ItemFileName = ''go.1.2.3'', ItemURL = url, ItemSize = sz\<rparr>
       = Inl PanicIndexOutOfRange"
    using getGoVersion_FileName[of "\<lparr>ItemFileName = ''go.1.2.3'', ItemURL = url, ItemSize = sz\<rparr>"
        "\<lparr>ItemFileName = ''go.1.2.3'', ItemURL = [], ItemSize = []\<rparr>"]
    by (simp add: panic_examples)
  have b: "getGoVersion \<lparr>ItemFileName = ''go1.2..tar.gz'', ItemURL = url, ItemSize = sz\<rparr>
       = Inl PanicIndexOutOfRange"
    using getGoVersion_FileName[of "\<lparr>ItemFileName = ''go1.2..tar.gz'', ItemURL = url, ItemSize = sz\<rparr>"
        "\<lparr>ItemFileName = ''go1.2..tar.gz'', ItemURL = [], ItemSize = []\<rparr>"]
    by (simp add: panic_examples)
  have c: "(\<exists>v. getGoVersion item = Inr v) = (getGoVersion item \<noteq> Inl PanicIndexOutOfRange)"
    using getGoVersion_total[of item] by auto
  have d: "\<exists>v. getGoVersion item = Inr v" if "[] \<notin> set (take 3 ?arr)"
  proof -
    have "?arr ! i \<noteq> []" if "i < 3" "i < length ?arr" for i
      using that \<open>[] \<notin> set (take 3 ?arr)\<close> by (metis in_set_conv_nth length_take min_less_iff_conj nth_take)
    then have "getGoVersion item \<noteq> Inl PanicIndexOutOfRange"
      by (auto simp: getGoVersion_panic_iff Let_def)
    with c show ?thesis by simp
  qed
  show ?thesis
    using a b c d getGoVersion_panic_iff[of item] by (simp add: Let_def panic_examples)
qed

theorem getGoVersion_panics_witness:
  "[] \<notin> set (take 3 (Split (TrimPrefix ''go1.21.4.linux-amd64.tar.gz'' ''go'') (CHR ''.'')))
   \<and> (\<exists>v. getGoVersion (listed ''go1.21.4.linux-amd64.tar.gz'') = Inr v)"
proof -
  let ?it = "listed ''go1.21.4.linux-amd64.tar.gz''"
  have fn: "ItemFileName ?it = ''go1.21.4.linux-amd64.tar.gz''"
    by (simp add: listed_def)
  have s: "Split (TrimPrefix ''go1.21.4.linux-amd64.tar.gz'' ''go'') (CHR ''.'')
             = [''1'', ''21'', ''4'', ''linux-amd64'', ''tar'', ''gz'']"
    by code_simp
  have h: "[] \<notin> set (take 3 (Split (TrimPrefix (ItemFileName ?it) ''go'') (CHR ''.'')))"
    by (simp add: fn s)
  from getGoVersion_panics[where item = ?it, unfolded Let_def] h
  have "\<exists>v. getGoVersion ?it = Inr v"
    by blast
  with h[unfolded fn] show ?thesis
    by (rule conjI)
qed

lemma slice_ensure: "slice (if m ver = None then m(ver \<mapsto> []) else m) ver = slice m ver"
  by (simp add: slice_def split: option.splits)

lemma convertItem_package:
  "getGoVersion pitem = Inr ver \<Longrightarrow> isPackageFile pitem \<Longrightarrow>
   convertItem osVisit archVisit m pitem
     = Inr (m(ver \<mapsto> slice m ver @ [newPackage osVisit archVisit pitem]))"
  by (simp add: convertItem_def Let_def slice_def split: option.splits)

lemma convertItem_key:
  "getGoVersion pitem = Inr ver \<Longrightarrow>
   \<exists>m'. convertItem osVisit archVisit m pitem = Inr m' \<and> m' ver \<noteq> None"
  by (simp add: convertItem_def Let_def)

lemma convertItem_dom:
  "convertItem osVisit archVisit m pitem = Inr m' \<Longrightarrow>
   dom m \<subseteq> dom m' \<and> (\<forall>ver. getGoVersion pitem = Inr ver \<longrightarrow> ver \<in> dom m')"
  by (auto simp: convertItem_def Let_def split: sum.splits if_splits)

lemma convertLoop_dom:
  "convertLoop osVisit archVisit i m its = Inr m' \<Longrightarrow>
   dom m \<subseteq> dom m' \<and> (\<forall>pitem \<in> set its. \<forall>ver. getGoVersion pitem = Inr ver \<longrightarrow> ver \<in> dom m')"
proof (induction its arbitrary: i m)
  case Nil
  then show ?case by simp
next
  case (Cons pitem its)
  from Cons.prems obtain m1 where
    s: "convertItem (osVisit i) (archVisit i) m pitem = Inr m1"
    and r: "convertLoop osVisit archVisit (Suc i) m1 its = Inr m'"
    by (auto split: sum.splits)
  from convertItem_dom[OF s] Cons.IH[OF r] show ?case
    by (auto simp: subset_iff)
qed

lemma hyphenate_Nil: "hyphenate [] = []"
  by (simp add: hyphenate_def Contains_def)

lemma New_Nil: "NewVersion [] = None \<Longrightarrow> New NewVersion [] ps = Inl (MalformedVersionError [])"
  by (simp add: New_def Semantify_def hyphenate_Nil)

lemma newVersions_fails:
  "k \<in> set keys \<Longrightarrow> New NewVersion k (slice m k) = Inl e \<Longrightarrow>
   \<exists>e'. newVersions NewVersion m keys = Inl e'"
  by (induction keys) (auto split: sum.splits)

lemma Convert2Versions_no_version:
  assumes "pitem \<in> set its" and "getGoVersion pitem = Inr []" and "NewVersion [] = None"
    and "\<forall>pm. convertLoop osVisit archVisit 0 Map.empty its = Inr pm \<longrightarrow> set (keysOf pm) = dom pm"
  shows "\<exists>e. Convert2Versions NewVersion sortCollection keysOf osVisit archVisit its = Inl e"
proof (cases "convertLoop osVisit archVisit 0 Map.empty its")
  case (Inl e)
  then show ?thesis by (simp add: Convert2Versions_def)
next
  case (Inr pm)
  from convertLoop_dom[OF Inr] assms(1,2) have "[] \<in> dom pm" by blast
  with assms(4) Inr have k: "[] \<in> set (keysOf pm)" by simp
  have "New NewVersion [] (slice pm []) = Inl (MalformedVersionError [])"
    using assms(3) by (simp add: New_Nil)
  from newVersions_fails[OF k this] obtain e' where "newVersions NewVersion pm (keysOf pm) = Inl e'"
    by blast
  then show ?thesis by (simp add: Convert2Versions_def Inr)
qed

text \<open>
  C5, as amended. Let \<open>arr\<close> be the components of the name after the prefix \<open>go\<close>, split
  at the dots. With fewer than three components, or a first component that starts with no
  number, the version is the empty string, and in no other case. If the first and the
  third component start with a number, the version is the first three components,
  whatever the second is; if the first does and the third does not, it is the first two
  when the second starts with a number and the first alone when it does not. A record
  with the empty version is not dropped: the loop creates the key of the empty string, a
  package file is appended under it, and if the semver library rejects the empty name
  then \<open>Convert2Versions\<close> fails for the whole listing. (What happens on an empty
  component is the subject of C9.)
\<close>

theorem getGoVersion_components:
  "(let arr = Split (TrimPrefix (ItemFileName item) ''go'') (CHR ''.'')
    in (length arr < 3 \<longrightarrow> getGoVersion item = Inr [])
     \<and> (3 \<le> length arr \<and> arr ! 0 \<noteq> [] \<and> \<not> IsNumber (hd (arr ! 0))
          \<longrightarrow> getGoVersion item = Inr [])
     \<and> (3 \<le> length arr \<and> arr ! 0 \<noteq> [] \<and> IsNumber (hd (arr ! 0))
          \<and> arr ! 2 \<noteq> [] \<and> IsNumber (hd (arr ! 2))
          \<longrightarrow> getGoVersion item = Inr (arr ! 0 @ ''.'' @ arr ! 1 @ ''.'' @ arr ! 2))
     \<and> (3 \<le> length arr \<and> arr ! 0 \<noteq> [] \<and> IsNumber (hd (arr ! 0))
          \<and> arr ! 2 \<noteq> [] \<and> \<not> IsNumber (hd (arr ! 2))
          \<and> arr ! 1 \<noteq> [] \<and> IsNumber (hd (arr ! 1))
          \<longrightarrow> getGoVersion item = Inr (arr ! 0 @ ''.'' @ arr ! 1))
     \<and> (3 \<le> length arr \<and> arr ! 0 \<noteq> [] \<and> IsNumber (hd (arr ! 0))
          \<and> arr ! 2 \<noteq> [] \<and> \<not> IsNumber (hd (arr ! 2))
          \<and> arr ! 1 \<noteq> [] \<and> \<not> IsNumber (hd (arr ! 1))
          \<longrightarrow> getGoVersion item = Inr (arr ! 0))
     \<and> ((getGoVersion item = Inr [])
          = (length arr < 3 \<or> (arr ! 0 \<noteq> [] \<and> \<not> IsNumber (hd (arr ! 0))))))
   \<and> (getGoVersion item = Inr [] \<longrightarrow>
        (\<exists>m'. convertItem osVisit archVisit m item = Inr m' \<and> m' [] \<noteq> None
           \<and> (isPackageFile item
                 \<longrightarrow> m' [] = Some (slice m [] @ [newPackage osVisit archVisit item]))))
   \<and> (item \<in> set its \<and> getGoVersion item = Inr [] \<and> NewVersion [] = None
          \<and> (\<forall>pm. convertLoop osVisits archVisits 0 Map.empty its = Inr pm
                  \<longrightarrow> set (keysOf pm) = dom pm)
        \<longrightarrow> (\<exists>e. Convert2Versions NewVersion sortCollection keysOf osVisits archVisits its = Inl e))"
proof (intro conjI)
  show "let arr = Split (TrimPrefix (ItemFileName item) ''go'') (CHR ''.'')
    in (length arr < 3 \<longrightarrow> getGoVersion item = Inr [])
     \<and> (3 \<le> length arr \<and> arr ! 0 \<noteq> [] \<and> \<not> IsNumber (hd (arr ! 0))
          \<longrightarrow> getGoVersion item = Inr [])
     \<and> (3 \<le> length arr \<and> arr ! 0 \<noteq> [] \<and> IsNumber (hd (arr ! 0))
          \<and> arr ! 2 \<noteq> [] \<and> IsNumber (hd (arr ! 2))
          \<longrightarrow> getGoVersion item = Inr (arr ! 0 @ ''.'' @ arr ! 1 @ ''.'' @ arr ! 2))
     \<and> (3 \<le> length arr \<and> arr ! 0 \<noteq> [] \<and> IsNumber (hd (arr ! 0))
          \<and> arr ! 2 \<noteq> [] \<and> \<not> IsNumber (hd (arr ! 2))
          \<and> arr ! 1 \<noteq> [] \<and> IsNumber (hd (arr ! 1))
          \<longrightarrow> getGoVersion item = Inr (arr ! 0 @ ''.'' @ arr ! 1))
     \<and> (3 \<le> length arr \<and> arr ! 0 \<noteq> [] \<and> IsNumber (hd (arr ! 0))
          \<and> arr ! 2 \<noteq> [] \<and> \<not> IsNumber (hd (arr ! 2))
          \<and> arr ! 1 \<noteq> [] \<and> \<not> IsNumber (hd (arr ! 1))
          \<longrightarrow> getGoVersion item = Inr (arr ! 0))
     \<and> ((getGoVersion item = Inr [])
          = (length arr < 3 \<or> (arr ! 0 \<noteq> [] \<and> \<not> IsNumber (hd (arr ! 0)))))"
    by (auto simp: getGoVersion_def Let_def byteAt_0)
next
  show "getGoVersion item = Inr [] \<longrightarrow>
        (\<exists>m'. convertItem osVisit archVisit m item = Inr m' \<and> m' [] \<noteq> None
           \<and> (isPackageFile item
                 \<longrightarrow> m' [] = Some (slice m [] @ [newPackage osVisit archVisit item])))"
    by (simp add: convertItem_def Let_def slice_def split: option.splits)
next
  show "item \<in> set its \<and> getGoVersion item = Inr [] \<and> NewVersion [] = None
          \<and> (\<forall>pm. convertLoop osVisits archVisits 0 Map.empty its = Inr pm
                  \<longrightarrow> set (keysOf pm) = dom pm)
        \<longrightarrow> (\<exists>e. Convert2Versions NewVersion sortCollection keysOf osVisits archVisits its = Inl e)"
    using Convert2Versions_no_version[of item its NewVersion osVisits archVisits keysOf] by blast
qed

lemma components_examples:
  "Split (TrimPrefix ''golang'' ''go'') (CHR ''.'') = [''lang'']"
  "Split (TrimPrefix ''golang.tar.gz'' ''go'') (CHR ''.'') = [''lang'', ''tar'', ''gz'']"
  "Split (TrimPrefix ''go1.21.4.darwin-amd64.tar.gz'' ''go'') (CHR ''.'')
     = [''1'', ''21'', ''4'', ''darwin-amd64'', ''tar'', ''gz'']"
  "Split (TrimPrefix ''go1.21rc2.linux-amd64.tar.gz'' ''go'') (CHR ''.'')
     = [''1'', ''21rc2'', ''linux-amd64'', ''tar'', ''gz'']"
  "Split (TrimPrefix ''go1.x.y.tar.gz'' ''go'') (CHR ''.'') = [''1'', ''x'', ''y'', ''tar'', ''gz'']"
  "Split (TrimPrefix ''go1.x.3.tar.gz'' ''go'') (CHR ''.'') = [''1'', ''x'', ''3'', ''tar'', ''gz'']"
  by code_simp+

lemma IsNumber_examples:
  "IsNumber (CHR ''1'')" "IsNumber (CHR ''2'')" "IsNumber (CHR ''3'')" "IsNumber (CHR ''4'')"
  "\<not> IsNumber (CHR ''l'')" "\<not> IsNumber (CHR ''d'')" "\<not> IsNumber (CHR ''x'')"
  "\<not> IsNumber (CHR ''y'')"
  by code_simp+

lemma isPackageFile_golang: "isPackageFile (listed ''golang.tar.gz'')"
  by code_simp

theorem getGoVersion_components_witness:
  "getGoVersion (listed ''golang'') = Inr []
   \<and> getGoVersion (listed ''golang.tar.gz'') = Inr []
   \<and> getGoVersion (listed ''go1.21.4.darwin-amd64.tar.gz'') = Inr ''1.21.4''
   \<and> getGoVersion (listed ''go1.21rc2.linux-amd64.tar.gz'') = Inr ''1.21rc2''
   \<and> getGoVersion (listed ''go1.x.y.tar.gz'') = Inr ''1''
   \<and> (\<exists>m'. convertItem osMapping archMapping Map.empty (listed ''golang.tar.gz'') = Inr m'
         \<and> m' [] = Some [newPackage osMapping archMapping (listed ''golang.tar.gz'')])
   \<and> (\<exists>e. Convert2Versions (\<lambda>s. if s = [] then None else Some s) id (\<lambda>pm. [''1.21.4'', []])
           (\<lambda>i. osMapping) (\<lambda>i. archMapping)
           [listed ''go1.21.4.darwin-amd64.tar.gz'', listed ''golang.tar.gz''] = Inl e)"
proof -
  let ?its = "[listed ''go1.21.4.darwin-amd64.tar.gz'', listed ''golang.tar.gz'']"
  have fn: "ItemFileName (listed x) = x" for x
    by (simp add: listed_def)
  note ev = fn components_examples IsNumber_examples Let_def
  have a: "getGoVersion (listed ''golang'') = Inr []"
    using getGoVersion_components[where item = "listed ''golang''", THEN conjunct1] by (simp add: ev)
  have b: "getGoVersion (listed ''golang.tar.gz'') = Inr []"
    using getGoVersion_components[where item = "listed ''golang.tar.gz''", THEN conjunct1] by (simp add: ev)
  have c: "getGoVersion (listed ''go1.21.4.darwin-amd64.tar.gz'') = Inr ''1.21.4''"
    using getGoVersion_components[where item = "listed ''go1.21.4.darwin-amd64.tar.gz''", THEN conjunct1]
    by (simp add: ev)
  have d: "getGoVersion (listed ''go1.21rc2.linux-amd64.tar.gz'') = Inr ''1.21rc2''"
    using getGoVersion_components[where item = "listed ''go1.21rc2.linux-amd64.tar.gz''", THEN conjunct1]
    by (simp add: ev)
  have e: "getGoVersion (listed ''go1.x.y.tar.gz'') = Inr ''1''"
    using getGoVersion_components[where item = "listed ''go1.x.y.tar.gz''", THEN conjunct1] by (simp add: ev)
  have f: "\<exists>m'. convertItem osMapping archMapping Map.empty (listed ''golang.tar.gz'') = Inr m'
         \<and> m' [] = Some [newPackage osMapping archMapping (listed ''golang.tar.gz'')]"
    using getGoVersion_components[where item = "listed ''golang.tar.gz''" and m = Map.empty
        and osVisit = osMapping and archVisit = archMapping, THEN conjunct2, THEN conjunct1]
      b isPackageFile_golang
    by (auto simp: slice_def)
  have p: "isPackageFile (listed ''go1.21.4.darwin-amd64.tar.gz'')"
    by code_simp
  have loop: "convertLoop (\<lambda>i. osMapping) (\<lambda>i. archMapping) 0 Map.empty ?its = Inr pm
                \<longrightarrow> set [''1.21.4'', []] = dom pm" for pm
    by (auto simp: convertItem_package[OF c p] convertItem_package[OF b isPackageFile_golang]
        split: if_splits)
  have g: "\<exists>e. Convert2Versions (\<lambda>s. if s = [] then None else Some s) id (\<lambda>pm. [''1.21.4'', []])
           (\<lambda>i. osMapping) (\<lambda>i. archMapping) ?its = Inl e"
    using getGoVersion_components[where item = "listed ''golang.tar.gz''" and its = ?its
        and NewVersion = "\<lambda>s. if s = [] then None else Some s"
        and keysOf = "\<lambda>pm. [''1.21.4'', []]" and osVisits = "\<lambda>i. osMapping"
        and archVisits = "\<lambda>i. archMapping" and sortCollection = id,
        THEN conjunct2, THEN conjunct2] b loop
    by simp
  from a b c d e f g show ?thesis by blast
qed

theorem getGoVersion_components_counterexample:
  "getGoVersion (listed ''go1.x.3.tar.gz'') = Inr ''1.x.3''
   \<and> \<not> IsNumber (hd (Split (TrimPrefix ''go1.x.3.tar.gz'' ''go'') (CHR ''.'') ! 1))
   \<and> getGoVersion (listed ''golang.tar.gz'') = Inr []
   \<and> convertLoop (\<lambda>i. osMapping) (\<lambda>i. archMapping) 0 Map.empty [listed ''golang.tar.gz'']
       = Inr [[] \<mapsto> [newPackage osMapping archMapping (listed ''golang.tar.gz'')]]
   \<and> Convert2Versions (\<lambda>s. if s = [] then None else Some s) id (\<lambda>pm. [''1.21.4'', []])
         (\<lambda>i. osMapping) (\<lambda>i. archMapping)
         [listed ''go1.21.4.linux-amd64.tar.gz'', listed ''golang.tar.gz'']
       = Inl (MalformedVersionError [])"
proof -
  have e: "Convert2Versions (\<lambda>s. if s = [] then None else Some s) id (\<lambda>pm. [''1.21.4'', []])
         (\<lambda>i. osMapping) (\<lambda>i. archMapping)
         [listed ''go1.21.4.linux-amd64.tar.gz'', listed ''golang.tar.gz'']
       = Inl (MalformedVersionError [])"
    by code_simp
  have a: "getGoVersion (listed ''go1.x.3.tar.gz'') = Inr ''1.x.3''"
    by code_simp
  have b: "\<not> IsNumber (hd (Split (TrimPrefix ''go1.x.3.tar.gz'' ''go'') (CHR ''.'') ! 1))"
    by (simp add: components_examples IsNumber_examples)
  have c: "getGoVersion (listed ''golang.tar.gz'') = Inr []"
    by code_simp
  have d: "convertLoop (\<lambda>i. osMapping) (\<lambda>i. archMapping) 0 Map.empty [listed ''golang.tar.gz'']
       = Inr [[] \<mapsto> [newPackage osMapping archMapping (listed ''golang.tar.gz'')]]"
    by (simp add: convertItem_package[OF c isPackageFile_golang] slice_def)
  from a b c d e show ?thesis by blast
qed

section \<open>Checksum pairing\<close>

lemma suffix_last:
  "suffix a s \<Longrightarrow> suffix b s \<Longrightarrow> a \<noteq> [] \<Longrightarrow> b \<noteq> [] \<Longrightarrow> last a = last b"
  by (metis last_appendR suffix_def)

lemma sha256_not_package: "isSHA256File pitem \<Longrightarrow> \<not> isPackageFile pitem"
  by (auto simp: isSHA256File_def isPackageFile_def HasSuffix_def dest: suffix_last)

lemma convertItem_sidecar:
  "isSHA256File pitem \<Longrightarrow> getGoVersion pitem = Inr ver \<Longrightarrow>
   convertItem osVisit archVisit m pitem = Inr (m(ver \<mapsto> map (setChecksum pitem) (slice m ver)))"
  by (frule sha256_not_package) (simp add: convertItem_def Let_def slice_def split: option.splits)

lemma Checksum_setChecksum: "Checksum (setChecksum pitem ppkg) = Checksum ppkg"
  by (simp add: setChecksum_def)

lemma convertItem_cases:
  "convertItem osVisit archVisit m pitem = Inr m' \<Longrightarrow>
   \<exists>ver. getGoVersion pitem = Inr ver \<and> (\<forall>k. k \<noteq> ver \<longrightarrow> slice m' k = slice m k)
     \<and> (slice m' ver = slice m ver @ [newPackage osVisit archVisit pitem]
        \<or> slice m' ver = map (setChecksum pitem) (slice m ver)
        \<or> slice m' ver = slice m ver)"
  by (auto simp: convertItem_def Let_def slice_def split: sum.splits if_splits option.splits)

lemma convertItem_Checksum:
  assumes "convertItem osVisit archVisit m pitem = Inr m'"
    and inv: "\<forall>ver p. p \<in> set (slice m ver) \<longrightarrow> Checksum p = []"
  shows "\<forall>ver p. p \<in> set (slice m' ver) \<longrightarrow> Checksum p = []"
proof (intro allI impI)
  fix k p
  assume p: "p \<in> set (slice m' k)"
  from convertItem_cases[OF assms(1)] obtain ver where
    other: "\<forall>k. k \<noteq> ver \<longrightarrow> slice m' k = slice m k"
    and this_ver: "slice m' ver = slice m ver @ [newPackage osVisit archVisit pitem]
        \<or> slice m' ver = map (setChecksum pitem) (slice m ver)
        \<or> slice m' ver = slice m ver"
    by blast
  show "Checksum p = []"
  proof (cases "k = ver")
    case False
    with other p inv show ?thesis by simp
  next
    case True
    with this_ver p inv show ?thesis
      by (auto simp: newPackage_def Checksum_setChecksum)
  qed
qed

lemma convertLoop_Checksum:
  "convertLoop osVisit archVisit i m its = Inr m' \<Longrightarrow>
   \<forall>ver p. p \<in> set (slice m ver) \<longrightarrow> Checksum p = [] \<Longrightarrow>
   \<forall>ver p. p \<in> set (slice m' ver) \<longrightarrow> Checksum p = []"
proof (induction its arbitrary: i m)
  case Nil
  then show ?case by simp
next
  case (Cons pitem its)
  from Cons.prems(1) obtain m1 where
    s: "convertItem (osVisit i) (archVisit i) m pitem = Inr m1"
    and r: "convertLoop osVisit archVisit (Suc i) m1 its = Inr m'"
    by (auto split: sum.splits)
  from Cons.IH[OF r convertItem_Checksum[OF s Cons.prems(2)]] show ?case .
qed

lemma concat_map_upt_Suc:
  "concat (map f [0..<Suc n]) = f 0 @ concat (map (\<lambda>k. f (Suc k)) [0..<n])"
  by (simp add: upt_conv_Cons map_Suc_upt[symmetric] comp_def del: upt_Suc)

lemma convertLoop_slice:
  assumes "convertLoop osVisit archVisit i m its = Inr m'"
  shows "slice m' ver =
      map (\<lambda>p. pairedWith p (sidecarsOf ver (FileName p) its)) (slice m ver)
      @ concat (map (\<lambda>k. if isPackageFile (its ! k) \<and> getGoVersion (its ! k) = Inr ver
                          then [pairedWith (newPackage (osVisit (i + k)) (archVisit (i + k)) (its ! k))
                                  (sidecarsOf ver (ItemFileName (its ! k)) (drop (Suc k) its))]
                          else [])
                  [0..<length its])"
  using assms
proof (induction its arbitrary: i m)
  case Nil
  then show ?case by (simp add: pairedWith_def sidecarsOf_def)
next
  case (Cons x rest)
  from Cons.prems obtain m1 where
    s: "convertItem (osVisit i) (archVisit i) m x = Inr m1"
    and r: "convertLoop osVisit archVisit (Suc i) m1 rest = Inr m'"
    by (auto split: sum.splits)
  note ih = Cons.IH[OF r]
  note sl = convertItem_slice[OF s, of ver]
  have stamp: "pairedWith (setChecksum x p) (sidecarsOf ver (FileName p) rest)
       = pairedWith p (sidecarsOf ver (FileName p) (x # rest))"
    if "isSHA256File x" "getGoVersion x = Inr ver" for p
    using that
    by (simp add: pairedWith_def sidecarsOf_def setChecksum_def HasPrefix_def checksum_SHA256_def)
  have shift: "concat (map (\<lambda>k. if isPackageFile ((x # rest) ! k) \<and> getGoVersion ((x # rest) ! k) = Inr ver
                          then [pairedWith (newPackage (osVisit (i + k)) (archVisit (i + k)) ((x # rest) ! k))
                                  (sidecarsOf ver (ItemFileName ((x # rest) ! k)) (drop (Suc k) (x # rest)))]
                          else [])
                  [0..<length (x # rest)])
      = (if isPackageFile x \<and> getGoVersion x = Inr ver
         then [pairedWith (newPackage (osVisit i) (archVisit i) x) (sidecarsOf ver (ItemFileName x) rest)]
         else [])
        @ concat (map (\<lambda>k. if isPackageFile (rest ! k) \<and> getGoVersion (rest ! k) = Inr ver
                          then [pairedWith (newPackage (osVisit (Suc i + k)) (archVisit (Suc i + k)) (rest ! k))
                                  (sidecarsOf ver (ItemFileName (rest ! k)) (drop (Suc k) rest))]
                          else [])
                  [0..<length rest])"
    by (simp only: length_Cons concat_map_upt_Suc) (simp cong: if_cong)
  show ?case
  proof (cases "getGoVersion x = Inr ver")
    case False
    then have "sidecarsOf ver fn (x # rest) = sidecarsOf ver fn rest" for fn
      by (simp add: sidecarsOf_def)
    with False sl ih show ?thesis
      by (simp only: shift) simp
  next
    case True
    show ?thesis
    proof (cases "isPackageFile x")
      case pk: True
      then have "\<not> isSHA256File x"
        using sha256_not_package by blast
      then have sc: "sidecarsOf ver fn (x # rest) = sidecarsOf ver fn rest" for fn
        by (simp add: sidecarsOf_def)
      have fnm: "FileName (newPackage (osVisit i) (archVisit i) x) = ItemFileName x"
        by (simp add: newPackage_def)
      from True pk sl ih show ?thesis
        by (simp only: shift) (simp add: sc fnm)
    next
      case npk: False
      show ?thesis
      proof (cases "isSHA256File x")
        case sh: True
        from True npk sh sl ih show ?thesis
          by (simp only: shift) (simp add: FileName_setChecksum stamp[OF sh True] comp_def)
      next
        case nsh: False
        then have sc: "sidecarsOf ver fn (x # rest) = sidecarsOf ver fn rest" for fn
          by (simp add: sidecarsOf_def)
        from True npk nsh sl ih show ?thesis
          by (simp only: shift) (simp add: sc)
      qed
    qed
  qed
qed

lemma convertLoop_dom_eq:
  "convertLoop osVisit archVisit i m its = Inr m' \<Longrightarrow>
   dom m' = dom m \<union> {ver. \<exists>item \<in> set its. getGoVersion item = Inr ver}"
proof (induction its arbitrary: i m)
  case Nil
  then show ?case by simp
next
  case (Cons x rest)
  from Cons.prems obtain m1 where
    s: "convertItem (osVisit i) (archVisit i) m x = Inr m1"
    and r: "convertLoop osVisit archVisit (Suc i) m1 rest = Inr m'"
    by (auto split: sum.splits)
  from s have "dom m1 = dom m \<union> {ver. getGoVersion x = Inr ver}"
    by (auto simp: convertItem_def Let_def split: sum.splits if_splits)
  with Cons.IH[OF r] show ?case by auto
qed

lemma convertLoop_returns:
  "\<forall>item \<in> set its. \<exists>ver. getGoVersion item = Inr ver \<Longrightarrow>
   \<exists>m'. convertLoop osVisit archVisit i m its = Inr m'"
proof (induction its arbitrary: i m)
  case Nil
  then show ?case by simp
next
  case (Cons x rest)
  then obtain ver where "getGoVersion x = Inr ver" by auto
  then have "\<exists>m1. convertItem (osVisit i) (archVisit i) m x = Inr m1"
    by (simp add: convertItem_def Let_def)
  then obtain m1 where "convertItem (osVisit i) (archVisit i) m x = Inr m1" ..
  with Cons show ?case by simp
qed

lemma newVersions_returns:
  "\<forall>k \<in> set keys. NewVersion (hyphenate k) \<noteq> None \<Longrightarrow>
   \<exists>vers. newVersions NewVersion m keys = Inr vers"
  by (induction keys) (auto simp: New_def Semantify_def split: sum.splits option.splits)

lemma Convert2Versions_names:
  assumes c: "Convert2Versions NewVersion sortCollection keysOf osVisits archVisits its = Inr vers"
    and srt: "\<forall>vs. set (sortCollection vs) = set vs"
    and keys: "\<forall>pm. convertLoop osVisits archVisits 0 Map.empty its = Inr pm
                 \<longrightarrow> set (keysOf pm) = dom pm"
  shows "name ` set vers = {ver. \<exists>item \<in> set its. getGoVersion item = Inr ver}"
proof -
  from Convert2Versions_Inr[OF c] obtain m vs where
    l: "convertLoop osVisits archVisits 0 Map.empty its = Inr m"
    and n: "newVersions NewVersion m (keysOf m) = Inr vs" and s: "vers = sortCollection vs"
    by blast
  from newVersions_Inr[OF n] have "name ` set vs = set (keysOf m)"
    by (metis list.set_map)
  with keys l have "name ` set vs = dom m" by simp
  with convertLoop_dom_eq[OF l] s srt show ?thesis by simp
qed

lemma Convert2Versions_returns:
  assumes all: "\<forall>item \<in> set its. \<exists>ver. getGoVersion item = Inr ver"
    and ok: "\<forall>pm k. convertLoop osVisits archVisits 0 Map.empty its = Inr pm \<and> k \<in> set (keysOf pm)
                 \<longrightarrow> NewVersion (hyphenate k) \<noteq> None"
  shows "\<exists>vers. Convert2Versions NewVersion sortCollection keysOf osVisits archVisits its = Inr vers"
proof -
  from convertLoop_returns[OF all] obtain m where
    l: "convertLoop osVisits archVisits 0 Map.empty its = Inr m" by blast
  with ok have "\<forall>k \<in> set (keysOf m). NewVersion (hyphenate k) \<noteq> None" by blast
  from newVersions_returns[OF this] obtain vs where "newVersions NewVersion m (keysOf m) = Inr vs"
    by blast
  with l show ?thesis by (simp add: Convert2Versions_def)
qed

text \<open>
  C6. In \<open>Convert2Versions\<close> a record whose name ends in \<open>.sha256\<close> rewrites the packages
  grouped so far under the record's version string: a package whose file name is a prefix
  of the record's file name gets the algorithm \<open>SHA256\<close> and the record's URL as its
  checksum URL, every other package and every other key stays as it is. For the result
  this means: the packages of a returned version are the package files of the listing
  with that version string, in the order of the listing, each paired with the checksum
  records that follow it in the listing, have the same version string and a file name
  that the package's file name is a prefix of. A package with no such record is as it was
  built, with no algorithm and no checksum URL; any other has the algorithm \<open>SHA256\<close> and
  the URL of the last such record. The checksum value of every returned package is empty.
  The names of the returned versions are the version strings of the listing when the
  second loop visits every key of the map, and the function returns versions whenever no
  record makes \<open>getGoVersion\<close> panic and the semver library accepts every key it is given.
  The sort is taken to return the versions it is given, in some order.
\<close>

theorem sidecar_pairing:
  "(isSHA256File pitem \<and> getGoVersion pitem = Inr ver \<longrightarrow>
      convertItem osVisit archVisit m pitem =
        Inr (m(ver \<mapsto>
          map (\<lambda>ppkg. if prefix (FileName ppkg) (ItemFileName pitem)
                       then ppkg\<lparr>Algorithm := ''SHA256'', ChecksumURL := ItemURL pitem\<rparr>
                       else ppkg)
            (slice m ver))))
   \<and> (Convert2Versions NewVersion sortCollection keysOf osVisits archVisits its = Inr vers
        \<and> (\<forall>vs. set (sortCollection vs) = set vs)
      \<longrightarrow> (\<forall>v \<in> set vers.
             pkgs v =
               [pairedWith (newPackage (osVisits k) (archVisits k) (its ! k))
                  (sidecarsOf (name v) (ItemFileName (its ! k)) (drop (Suc k) its)).
                k \<leftarrow> [0..<length its],
                isPackageFile (its ! k) \<and> getGoVersion (its ! k) = Inr (name v)]
             \<and> (\<forall>p \<in> set (pkgs v). Checksum p = [])))
   \<and> (Convert2Versions NewVersion sortCollection keysOf osVisits archVisits its = Inr vers
        \<and> (\<forall>vs. set (sortCollection vs) = set vs)
        \<and> (\<forall>pm. convertLoop osVisits archVisits 0 Map.empty its = Inr pm
                \<longrightarrow> set (keysOf pm) = dom pm)
      \<longrightarrow> name ` set vers = {ver. \<exists>item \<in> set its. getGoVersion item = Inr ver})
   \<and> ((\<forall>item \<in> set its. \<exists>ver. getGoVersion item = Inr ver)
        \<and> (\<forall>pm k. convertLoop osVisits archVisits 0 Map.empty its = Inr pm \<and> k \<in> set (keysOf pm)
                \<longrightarrow> NewVersion (hyphenate k) \<noteq> None)
      \<longrightarrow> (\<exists>vers. Convert2Versions NewVersion sortCollection keysOf osVisits archVisits its
                     = Inr vers))"
proof (intro conjI impI ballI)
  assume a: "isSHA256File pitem \<and> getGoVersion pitem = Inr ver"
  have "setChecksum pitem = (\<lambda>ppkg. if prefix (FileName ppkg) (ItemFileName pitem)
                       then ppkg\<lparr>Algorithm := ''SHA256'', ChecksumURL := ItemURL pitem\<rparr>
                       else ppkg)"
    by (auto simp: setChecksum_def HasPrefix_def checksum_SHA256_def)
  with a show "convertItem osVisit archVisit m pitem =
        Inr (m(ver \<mapsto>
          map (\<lambda>ppkg. if prefix (FileName ppkg) (ItemFileName pitem)
                       then ppkg\<lparr>Algorithm := ''SHA256'', ChecksumURL := ItemURL pitem\<rparr>
                       else ppkg)
            (slice m ver)))"
    by (simp add: convertItem_sidecar)
next
  fix v
  assume h: "Convert2Versions NewVersion sortCollection keysOf osVisits archVisits its = Inr vers
        \<and> (\<forall>vs. set (sortCollection vs) = set vs)"
    and v: "v \<in> set vers"
  from Convert2Versions_pkgs[OF h[THEN conjunct1] h[THEN conjunct2] v] obtain pm where
    l: "convertLoop osVisits archVisits 0 Map.empty its = Inr pm" and p: "pkgs v = slice pm (name v)"
    by blast
  from convertLoop_slice[OF l, of "name v"] p
  show "pkgs v =
               [pairedWith (newPackage (osVisits k) (archVisits k) (its ! k))
                  (sidecarsOf (name v) (ItemFileName (its ! k)) (drop (Suc k) its)).
                k \<leftarrow> [0..<length its],
                isPackageFile (its ! k) \<and> getGoVersion (its ! k) = Inr (name v)]"
    by (simp add: slice_def cong: if_cong)
  fix q
  assume "q \<in> set (pkgs v)"
  with convertLoop_Checksum[OF l] p show "Checksum q = []"
    by (simp add: slice_def)
next
  assume "Convert2Versions NewVersion sortCollection keysOf osVisits archVisits its = Inr vers
        \<and> (\<forall>vs. set (sortCollection vs) = set vs)
        \<and> (\<forall>pm. convertLoop osVisits archVisits 0 Map.empty its = Inr pm
                \<longrightarrow> set (keysOf pm) = dom pm)"
  then show "name ` set vers = {ver. \<exists>item \<in> set its. getGoVersion item = Inr ver}"
    using Convert2Versions_names[of NewVersion sortCollection keysOf osVisits archVisits its vers]
    by blast
next
  assume "(\<forall>item \<in> set its. \<exists>ver. getGoVersion item = Inr ver)
        \<and> (\<forall>pm k. convertLoop osVisits archVisits 0 Map.empty its = Inr pm \<and> k \<in> set (keysOf pm)
                \<longrightarrow> NewVersion (hyphenate k) \<noteq> None)"
  then show "\<exists>vers. Convert2Versions NewVersion sortCollection keysOf osVisits archVisits its
                     = Inr vers"
    using Convert2Versions_returns[of its osVisits archVisits keysOf NewVersion sortCollection]
    by blast
qed


lemma sidecar_facts:
  "isSHA256File (listed ''go1.21.4.linux-amd64.tar.gz.sha256'')"
  "getGoVersion (listed ''go1.21.4.linux-amd64.tar.gz.sha256'') = Inr ''1.21.4''"
  "getGoVersion (listed ''go1.21.4.linux-amd64.tar.gz'') = Inr ''1.21.4''"
  "getGoVersion (listed ''go1.21.4.darwin-arm64.tar.gz'') = Inr ''1.21.4''"
  "isPackageFile (listed ''go1.21.4.linux-amd64.tar.gz'')"
  "isPackageFile (listed ''go1.21.4.darwin-arm64.tar.gz'')"
  "prefix (FileName pkgLinux) (ItemFileName (listed ''go1.21.4.linux-amd64.tar.gz.sha256''))"
  "\<not> prefix (FileName pkgDarwin) (ItemFileName (listed ''go1.21.4.linux-amd64.tar.gz.sha256''))"
  "Checksum pkgLinux = []" "Checksum pkgDarwin = []"
  by code_simp+

lemma sidecar_facts2:
  "Convert2Versions Some id (\<lambda>pm. [''1.21.4'']) (\<lambda>i. osMapping) (\<lambda>i. archMapping) pairedListing
     = Inr [\<lparr>name = ''1.21.4'', sv = ''1.21.4'',
             pkgs = [pkgLinux\<lparr>Algorithm := ''SHA256'',
                       ChecksumURL := ''https://mirrors.hust.edu.cn/golang/go1.21.4.linux-amd64.tar.gz.sha256''\<rparr>,
                     pkgDarwin]\<rparr>]"
  "list_all (\<lambda>item. getGoVersion item = Inr ''1.21.4'') pairedListing"
  by code_simp+

theorem sidecar_pairing_witness:
  "convertItem osMapping archMapping [''1.21.4'' \<mapsto> [pkgLinux, pkgDarwin]]
       (listed ''go1.21.4.linux-amd64.tar.gz.sha256'')
     = Inr [''1.21.4'' \<mapsto>
         [pkgLinux\<lparr>Algorithm := ''SHA256'',
            ChecksumURL := ''https://mirrors.hust.edu.cn/golang/go1.21.4.linux-amd64.tar.gz.sha256''\<rparr>,
          pkgDarwin]]
   \<and> Convert2Versions Some id (\<lambda>pm. [''1.21.4'']) (\<lambda>i. osMapping) (\<lambda>i. archMapping) pairedListing
     = Inr [\<lparr>name = ''1.21.4'', sv = ''1.21.4'',
             pkgs = [pkgLinux\<lparr>Algorithm := ''SHA256'',
                       ChecksumURL := ''https://mirrors.hust.edu.cn/golang/go1.21.4.linux-amd64.tar.gz.sha256''\<rparr>,
                     pkgDarwin]\<rparr>]
   \<and> [pkgLinux\<lparr>Algorithm := ''SHA256'',
         ChecksumURL := ''https://mirrors.hust.edu.cn/golang/go1.21.4.linux-amd64.tar.gz.sha256''\<rparr>,
       pkgDarwin]
     = [pairedWith (newPackage osMapping archMapping (pairedListing ! k))
          (sidecarsOf ''1.21.4'' (ItemFileName (pairedListing ! k)) (drop (Suc k) pairedListing)).
        k \<leftarrow> [0..<length pairedListing],
        isPackageFile (pairedListing ! k) \<and> getGoVersion (pairedListing ! k) = Inr ''1.21.4'']
   \<and> Checksum (pkgLinux\<lparr>Algorithm := ''SHA256'',
         ChecksumURL := ''https://mirrors.hust.edu.cn/golang/go1.21.4.linux-amd64.tar.gz.sha256''\<rparr>) = []
   \<and> Checksum pkgDarwin = []
   \<and> {''1.21.4''} = {ver. \<exists>item \<in> set pairedListing. getGoVersion item = Inr ver}
   \<and> (\<exists>vers. Convert2Versions Some id (\<lambda>pm. [''1.21.4'']) (\<lambda>i. osMapping) (\<lambda>i. archMapping)
         pairedListing = Inr vers)"
proof -
  let ?side = "listed ''go1.21.4.linux-amd64.tar.gz.sha256''"
  let ?lin = "pkgLinux\<lparr>Algorithm := ''SHA256'',
            ChecksumURL := ''https://mirrors.hust.edu.cn/golang/go1.21.4.linux-amd64.tar.gz.sha256''\<rparr>"
  let ?m' = "[''1.21.4'' \<mapsto> [?lin, pkgDarwin]]"
  let ?V = "\<lparr>name = ''1.21.4'', sv = ''1.21.4'', pkgs = [?lin, pkgDarwin]\<rparr>"
  let ?keys = "\<lambda>pm :: pkgMap. [''1.21.4'']"
  have u: "ItemURL ?side = ''https://mirrors.hust.edu.cn/golang/go1.21.4.linux-amd64.tar.gz.sha256''"
    by (simp add: listed_def HUSTDownloadPageURL_def)
  have a: "convertItem osMapping archMapping [''1.21.4'' \<mapsto> [pkgLinux, pkgDarwin]] ?side = Inr ?m'"
    using sidecar_pairing[where pitem = ?side and ver = "''1.21.4''" and osVisit = osMapping
        and archVisit = archMapping and m = "[''1.21.4'' \<mapsto> [pkgLinux, pkgDarwin]]",
        THEN conjunct1]
    by (simp add: sidecar_facts slice_def u)
  note c = sidecar_facts2(1)
  have srt: "\<forall>vs :: string Version list. set (id vs) = set vs"
    by simp
  have mem: "?V \<in> set [?V]"
    by simp
  note t = sidecar_pairing[where its = pairedListing and NewVersion = Some and sortCollection = id
      and keysOf = ?keys and osVisits = "\<lambda>i. osMapping" and archVisits = "\<lambda>i. archMapping"
      and vers = "[?V]", THEN conjunct2]
  note t1 = t[THEN conjunct1, THEN mp, OF conjI[OF c srt], THEN bspec, OF mem]
  from t1[THEN conjunct1]
  have b: "[?lin, pkgDarwin]
     = [pairedWith (newPackage osMapping archMapping (pairedListing ! k))
          (sidecarsOf ''1.21.4'' (ItemFileName (pairedListing ! k)) (drop (Suc k) pairedListing)).
        k \<leftarrow> [0..<length pairedListing],
        isPackageFile (pairedListing ! k) \<and> getGoVersion (pairedListing ! k) = Inr ''1.21.4'']"
    by (simp only: Version.select_convs)
  from t1[THEN conjunct2]
  have d: "Checksum ?lin = [] \<and> Checksum pkgDarwin = []"
    by simp
  have all: "\<forall>item \<in> set pairedListing. getGoVersion item = Inr ''1.21.4''"
    using sidecar_facts2(2) by (simp add: list_all_iff)
  have one: "listed ''go1.21.4.linux-amd64.tar.gz'' \<in> set pairedListing"
    by (simp add: pairedListing_def)
  have keys: "\<forall>pm. convertLoop (\<lambda>i. osMapping) (\<lambda>i. archMapping) 0 Map.empty pairedListing = Inr pm
      \<longrightarrow> set (?keys pm) = dom pm"
  proof (intro allI impI)
    fix pm
    assume "convertLoop (\<lambda>i. osMapping) (\<lambda>i. archMapping) 0 Map.empty pairedListing = Inr pm"
    from convertLoop_dom_eq[OF this] all one show "set (?keys pm) = dom pm"
      by auto
  qed
  from t[THEN conjunct2, THEN conjunct1, THEN mp, OF conjI[OF c conjI[OF srt keys]]]
  have e: "{''1.21.4''} = {ver. \<exists>item \<in> set pairedListing. getGoVersion item = Inr ver}"
    by simp
  from all have ret: "\<forall>item \<in> set pairedListing. \<exists>ver. getGoVersion item = Inr ver"
    by simp
  have ok: "\<forall>pm k. convertLoop (\<lambda>i. osMapping) (\<lambda>i. archMapping) 0 Map.empty pairedListing = Inr pm
      \<and> k \<in> set (?keys pm) \<longrightarrow> Some (hyphenate k) \<noteq> None"
    by simp
  from t[THEN conjunct2, THEN conjunct2, THEN mp, OF conjI[OF ret ok]]
  have f: "\<exists>vers. Convert2Versions Some id ?keys (\<lambda>i. osMapping) (\<lambda>i. archMapping)
         pairedListing = Inr vers" .
  from a c b d e f show ?thesis by blast
qed

section \<open>The loop of the registry\<close>

lemma collectorLoop_unfold:
  "i \<le> length urls \<Longrightarrow>
   collectorLoop construct urls i =
     (case dropWhile (\<lambda>u. selectCollector (normalizeURL u) = None) (drop i urls) of
        [] \<Rightarrow> (Inl ErrCollectorNotFound, take i urls @ map normalizeURL (drop i urls))
      | u # rest \<Rightarrow>
          ((case selectCollector (normalizeURL u) of
              Some (a, url) \<Rightarrow> construct a url
            | None \<Rightarrow> Inl ErrCollectorNotFound),
           take i urls
             @ map normalizeURL (takeWhile (\<lambda>u. selectCollector (normalizeURL u) = None) (drop i urls))
             @ normalizeURL u # rest))"
proof (induction construct urls i rule: collectorLoop.induct)
  case (1 construct urls i)
  let ?P = "\<lambda>u. selectCollector (normalizeURL u) = None"
  show ?case
  proof (cases "i < length urls")
    case False
    with "1.prems" show ?thesis
      by (subst collectorLoop.simps) simp
  next
    case True
    let ?x = "normalizeURL (urls ! i)"
    let ?urls' = "urls[i := ?x]"
    have d: "drop i urls = urls ! i # drop (Suc i) urls"
      using True by (simp add: Cons_nth_drop_Suc)
    have nth: "?urls' ! i = ?x"
      using True by simp
    show ?thesis
    proof (cases "selectCollector ?x")
      case (Some r)
      obtain a url where r: "r = (a, url)" by (cases r)
      have "collectorLoop construct urls i = (construct a url, ?urls')"
        using True Some r by (subst collectorLoop.simps) (simp add: Let_def)
      moreover have "?urls' = take i urls @ ?x # drop (Suc i) urls"
        using True by (simp add: upd_conv_take_nth_drop)
      ultimately show ?thesis
        using Some r by (simp add: d)
    next
      case None
      have step: "collectorLoop construct urls i = collectorLoop construct ?urls' (Suc i)"
        using True None by (subst collectorLoop.simps) (simp add: Let_def)
      have le: "Suc i \<le> length ?urls'"
        using True by simp
      have t: "take (Suc i) ?urls' = take i urls @ [?x]"
        using True by (simp add: take_Suc_conv_app_nth)
      have dr: "drop (Suc i) ?urls' = drop (Suc i) urls"
        by simp
      have sel: "selectCollector (?urls' ! i) = None"
        using None nth by simp
      note IH = "1.IH"[OF True refl sel le]
      have dw: "dropWhile ?P (drop i urls) = dropWhile ?P (drop (Suc i) ?urls')"
        using None by (simp add: d)
      have ti: "take i urls @ map normalizeURL (drop i urls)
                  = take (Suc i) ?urls' @ map normalizeURL (drop (Suc i) ?urls')"
        by (simp add: t d)
      have ti2: "take i urls @ map normalizeURL (takeWhile ?P (drop i urls)) @ ys
                  = take (Suc i) ?urls' @ map normalizeURL (takeWhile ?P (drop (Suc i) ?urls')) @ ys"
        for ys using None by (simp add: t d)
      show ?thesis
        unfolding step IH dw ti ti2 by (rule refl)
    qed
  qed
qed


lemma normalizeURL_eq:
  "normalizeURL u = (if suffix ''/'' (TrimSpace u) then TrimSpace u else TrimSpace u @ ''/'')"
  by (simp add: normalizeURL_def HasSuffix_def Let_def)




lemma adapterName_inj: "adapterName a = adapterName b \<Longrightarrow> a = b"
  by (cases a; cases b; simp)





lemma fst_list_case:
  "fst (case xs of [] \<Rightarrow> (a, b) | u # r \<Rightarrow> (f u r, g u r)) = (case xs of [] \<Rightarrow> a | u # r \<Rightarrow> f u r)"
  by (cases xs) simp_all

lemma snd_list_case:
  "snd (case xs of [] \<Rightarrow> (a, b) | u # r \<Rightarrow> (f u r, g u r)) = (case xs of [] \<Rightarrow> b | u # r \<Rightarrow> g u r)"
  by (cases xs) simp_all

lemma collectorLoop_0:
  "collectorLoop construct urls 0 =
     (case dropWhile (\<lambda>u. selectCollector (normalizeURL u) = None) urls of
        [] \<Rightarrow> (Inl ErrCollectorNotFound, map normalizeURL urls)
      | u # rest \<Rightarrow>
          ((case selectCollector (normalizeURL u) of
              Some (a, url) \<Rightarrow> construct a url
            | None \<Rightarrow> Inl ErrCollectorNotFound),
           map normalizeURL (takeWhile (\<lambda>u. selectCollector (normalizeURL u) = None) urls)
             @ normalizeURL u # rest))"
proof -
  let ?P = "\<lambda>u. selectCollector (normalizeURL u) = None"
  have u: "collectorLoop construct urls 0 =
     (case dropWhile ?P (drop 0 urls) of
        [] \<Rightarrow> (Inl ErrCollectorNotFound, take 0 urls @ map normalizeURL (drop 0 urls))
      | u # rest \<Rightarrow>
          ((case selectCollector (normalizeURL u) of
              Some (a, url) \<Rightarrow> construct a url
            | None \<Rightarrow> Inl ErrCollectorNotFound),
           take 0 urls @ map normalizeURL (takeWhile ?P (drop 0 urls)) @ normalizeURL u # rest))"
    by (rule collectorLoop_unfold) simp
  show ?thesis
  proof (cases "dropWhile ?P urls")
    case Nil
    show ?thesis by (simp only: u drop_0 take_0 append_Nil Nil list.case)
  next
    case (Cons v rest)
    show ?thesis by (simp only: u drop_0 take_0 append_Nil Cons list.case)
  qed
qed

lemma default_urls:
  "(length urls = 0 \<or> (length urls = 1 \<and> urls ! 0 = [])) = (urls = [] \<or> urls = [[]])"
  by (cases urls) (auto simp: length_Suc_conv)

lemma NewCollector_fst:
  "fst (NewCollector construct urls) =
     (case dropWhile (\<lambda>u. selectCollector (normalizeURL u) = None)
             (if urls = [] \<or> urls = [[]] then [OfficialDownloadPageURL] else urls) of
        [] \<Rightarrow> Inl ErrCollectorNotFound
      | u # rest \<Rightarrow>
          (case selectCollector (normalizeURL u) of
             Some (a, url) \<Rightarrow> construct a url
           | None \<Rightarrow> Inl ErrCollectorNotFound))"
  by (cases "urls = [] \<or> urls = [[]]")
     (simp_all only: NewCollector_def default_urls if_True if_False fst_conv collectorLoop_0
        fst_list_case)

lemma NewCollector_snd:
  assumes "urls \<noteq> [[]]"
  shows "snd (NewCollector construct urls) =
     map normalizeURL (takeWhile (\<lambda>u. selectCollector (normalizeURL u) = None) urls)
       @ (case dropWhile (\<lambda>u. selectCollector (normalizeURL u) = None) urls of
            [] \<Rightarrow> []
          | u # rest \<Rightarrow> normalizeURL u # rest)"
proof (cases "urls = []")
  case True
  then show ?thesis by (simp add: NewCollector_def)
next
  case False
  let ?P = "\<lambda>u. selectCollector (normalizeURL u) = None"
  from False assms have "snd (NewCollector construct urls) = snd (collectorLoop construct urls 0)"
    by (simp only: NewCollector_def default_urls simp_thms if_False)
  also have "\<dots> = (case dropWhile ?P urls of
                      [] \<Rightarrow> map normalizeURL urls
                    | u # rest \<Rightarrow> map normalizeURL (takeWhile ?P urls) @ normalizeURL u # rest)"
    by (simp only: collectorLoop_0 snd_list_case)
  also have "\<dots> = map normalizeURL (takeWhile ?P urls)
                      @ (case dropWhile ?P urls of [] \<Rightarrow> [] | u # rest \<Rightarrow> normalizeURL u # rest)"
  proof (cases "dropWhile ?P urls")
    case Nil
    then have "takeWhile ?P urls = urls"
      by (simp add: takeWhile_eq_all_conv)
    then show ?thesis by (simp only: Nil list.case append_Nil2)
  next
    case (Cons u rest)
    show ?thesis by (simp only: Cons list.case)
  qed
  finally show ?thesis .
qed

lemma spaceWidth_0_iff:
  "spaceWidth encs s = 0 \<longleftrightarrow> (\<forall>e \<in> set encs. e \<noteq> [] \<longrightarrow> \<not> prefix e s)"
  by (auto simp: spaceWidth_def find_None_iff find_Some_iff split: option.splits)

lemma spaceWidth_split:
  assumes "spaceWidth encs s \<noteq> 0"
  shows "\<exists>e \<in> set encs. s = e @ drop (spaceWidth encs s) s"
proof (cases "find (\<lambda>e. e \<noteq> [] \<and> prefix e s) encs")
  case None
  with assms show ?thesis by (simp add: spaceWidth_def)
next
  case (Some e)
  from find_Some_holds[OF Some] have e: "e \<in> set encs" "prefix e s" by simp_all
  from e(2) have "s = e @ drop (length e) s" by (auto simp: prefix_def)
  moreover have "spaceWidth encs s = length e" by (simp add: spaceWidth_def Some)
  ultimately show ?thesis using e(1) by auto
qed

lemma trimLeft_decomp: "\<exists>ls. set ls \<subseteq> set encs \<and> s = concat ls @ trimLeft encs s"
proof (induction encs s rule: trimLeft.induct)
  case (1 encs s)
  show ?case
  proof (cases "spaceWidth encs s = 0")
    case True
    then have "trimLeft encs s = s" by (simp add: trimLeft.simps)
    then have "set [] \<subseteq> set encs \<and> s = concat [] @ trimLeft encs s" by simp
    then show ?thesis by blast
  next
    case False
    from spaceWidth_split[OF False] obtain e where
      e: "e \<in> set encs" "s = e @ drop (spaceWidth encs s) s" by blast
    from "1.IH"[OF False] obtain ls where
      ls: "set ls \<subseteq> set encs"
        "drop (spaceWidth encs s) s = concat ls @ trimLeft encs (drop (spaceWidth encs s) s)"
      by blast
    have t: "trimLeft encs s = trimLeft encs (drop (spaceWidth encs s) s)"
      using False by (subst trimLeft.simps) simp
    have "s = concat (e # ls) @ trimLeft encs s"
      using e(2) ls(2) t by (metis append.assoc concat.simps(2))
    with e(1) ls(1) have "set (e # ls) \<subseteq> set encs \<and> s = concat (e # ls) @ trimLeft encs s"
      by simp
    then show ?thesis by blast
  qed
qed

lemma trimLeft_clean: "spaceWidth encs (trimLeft encs s) = 0"
proof (induction encs s rule: trimLeft.induct)
  case (1 encs s)
  show ?case
  proof (cases "spaceWidth encs s = 0")
    case True
    then show ?thesis by (simp add: trimLeft.simps)
  next
    case False
    have "trimLeft encs s = trimLeft encs (drop (spaceWidth encs s) s)"
      using False by (subst trimLeft.simps) simp
    with "1.IH"[OF False] show ?thesis by simp
  qed
qed

lemma spaceEncodings_nonempty: "[] \<notin> set spaceEncodings"
  by (simp add: spaceEncodings_def)

lemma TrimSpace_decomp:
  "\<exists>ls rs. set ls \<subseteq> set spaceEncodings \<and> set rs \<subseteq> set spaceEncodings
     \<and> u = concat ls @ TrimSpace u @ concat rs"
proof -
  let ?t1 = "trimLeft spaceEncodings u"
  let ?t2 = "trimLeft (map rev spaceEncodings) (rev ?t1)"
  from trimLeft_decomp[of spaceEncodings u] obtain ls where
    ls: "set ls \<subseteq> set spaceEncodings" "u = concat ls @ ?t1" by blast
  from trimLeft_decomp[of "map rev spaceEncodings" "rev ?t1"] obtain rs where
    rs: "set rs \<subseteq> set (map rev spaceEncodings)" "rev ?t1 = concat rs @ ?t2" by blast
  have "?t1 = rev ?t2 @ rev (concat rs)"
    using rs(2) by (metis rev_append rev_rev_ident)
  also have "rev (concat rs) = concat (map rev (rev rs))"
    by (simp add: rev_concat)
  finally have t1: "?t1 = TrimSpace u @ concat (map rev (rev rs))"
    by (simp add: TrimSpace_def)
  have "set (map rev (rev rs)) \<subseteq> set spaceEncodings"
    using rs(1) by auto
  with ls t1 show ?thesis
    by (metis append.assoc)
qed

lemma TrimSpace_clean:
  "\<forall>e \<in> set spaceEncodings. \<not> prefix e (TrimSpace u) \<and> \<not> suffix e (TrimSpace u)"
proof
  fix e
  assume e: "e \<in> set spaceEncodings"
  then have ne: "e \<noteq> []" using spaceEncodings_nonempty by auto
  let ?t1 = "trimLeft spaceEncodings u"
  let ?t2 = "trimLeft (map rev spaceEncodings) (rev ?t1)"
  have ts: "TrimSpace u = rev ?t2" by (simp add: TrimSpace_def)
  from trimLeft_decomp[of "map rev spaceEncodings" "rev ?t1"] obtain rs where
    "rev ?t1 = concat rs @ ?t2" by blast
  then have "?t1 = rev ?t2 @ rev (concat rs)"
    by (metis rev_append rev_rev_ident)
  then have pre: "prefix (TrimSpace u) ?t1"
    unfolding ts prefix_def by blast
  have "\<not> prefix e ?t1"
    using trimLeft_clean[of spaceEncodings u] e ne by (simp add: spaceWidth_0_iff)
  with pre have a: "\<not> prefix e (TrimSpace u)"
    using prefix_order.trans by blast
  have "\<not> prefix (rev e) ?t2"
    using trimLeft_clean[of "map rev spaceEncodings" "rev ?t1"] e ne
    by (simp add: spaceWidth_0_iff)
  then have b: "\<not> suffix e (TrimSpace u)"
    by (simp add: ts suffix_to_prefix)
  from a b show "\<not> prefix e (TrimSpace u) \<and> \<not> suffix e (TrimSpace u)" ..
qed


text \<open>
  C10, as amended. For every argument slice but the one that holds the empty string
  alone, the caller's slice after the call has each element up to and including the first
  candidate that resolves (all elements, if none resolves) replaced by its normalized
  form, and the elements after it unchanged. The normalized form is the trimmed string,
  with a slash appended unless it ends with one; the trimmed string is what is left when
  white-space runes are taken off both ends, and it starts and ends with none. For the
  slice that holds the empty string alone the function works on a new slice, and the
  caller's slice is not written.
\<close>

theorem NewCollector_writes:
  "(urls \<noteq> [[]] \<longrightarrow>
      snd (NewCollector construct urls) =
        map normalizeURL (takeWhile (\<lambda>u. selectCollector (normalizeURL u) = None) urls)
          @ (case dropWhile (\<lambda>u. selectCollector (normalizeURL u) = None) urls of
               [] \<Rightarrow> []
             | u # rest \<Rightarrow> normalizeURL u # rest))
   \<and> snd (NewCollector construct [[]]) = [[]]
   \<and> normalizeURL u = (if suffix ''/'' (TrimSpace u) then TrimSpace u else TrimSpace u @ ''/'')
   \<and> (\<exists>ls rs. set ls \<subseteq> set spaceEncodings \<and> set rs \<subseteq> set spaceEncodings
         \<and> u = concat ls @ TrimSpace u @ concat rs)
   \<and> (\<forall>e \<in> set spaceEncodings. \<not> prefix e (TrimSpace u) \<and> \<not> suffix e (TrimSpace u))"
proof -
  have p2: "snd (NewCollector construct [[]]) = [[]]"
    by (simp add: NewCollector_def)
  show ?thesis
    using NewCollector_snd[of urls construct] p2 normalizeURL_eq[of u] TrimSpace_decomp[of u]
      TrimSpace_clean[of u]
    by blast
qed



lemma writes_examples:
  "selectCollector ''https://example.org/go/'' = None"
  "selectCollector ''https://go.dev/dl/'' = Some (Official, ''https://go.dev/dl/'')"
  "normalizeURL '' https://example.org/go '' = ''https://example.org/go/''"
  "normalizeURL '' https://go.dev/dl '' = ''https://go.dev/dl/''"
  "'' '' \<in> set spaceEncodings"
  "map normalizeURL [[]] = [''/'']"
  by code_simp+

theorem NewCollector_writes_witness:
  "['' https://example.org/go '', '' https://go.dev/dl '', '' later ''] \<noteq> [[]]
   \<and> snd (NewCollector named ['' https://example.org/go '', '' https://go.dev/dl '', '' later ''])
       = [''https://example.org/go/'', ''https://go.dev/dl/'', '' later '']
   \<and> '' '' \<in> set spaceEncodings
   \<and> \<not> prefix '' '' (TrimSpace '' later '') \<and> \<not> suffix '' '' (TrimSpace '' later '')"
proof -
  let ?urls = "['' https://example.org/go '', '' https://go.dev/dl '', '' later '']"
  have n: "?urls \<noteq> [[]]" by simp
  have a: "snd (NewCollector named ?urls)
       = [''https://example.org/go/'', ''https://go.dev/dl/'', '' later '']"
    using NewCollector_writes[where urls = ?urls and construct = named, THEN conjunct1] n
    by (simp add: writes_examples)
  have b: "\<not> prefix '' '' (TrimSpace '' later '') \<and> \<not> suffix '' '' (TrimSpace '' later '')"
    using NewCollector_writes[where u = "'' later ''", THEN conjunct2, THEN conjunct2,
        THEN conjunct2, THEN conjunct2] writes_examples(5)
    by blast
  from n a writes_examples(5) b show ?thesis by blast
qed

theorem NewCollector_writes_counterexample:
  "fst (NewCollector named [[]]) = Inr (''official'', ''https://go.dev/dl/'')
   \<and> snd (NewCollector named [[]]) = [[]]
   \<and> map normalizeURL [[]] = [''/'']"
proof -
  have "selectCollector (normalizeURL OfficialDownloadPageURL) = Some (Official, ''https://go.dev/dl/'')"
    by code_simp
  then have a: "fst (NewCollector named [[]]) = Inr (''official'', ''https://go.dev/dl/'')"
    by (simp add: NewCollector_fst named_def)
  have b: "snd (NewCollector named [[]]) = [[]]"
    by (simp add: NewCollector_def)
  from a b writes_examples(6) show ?thesis by blast
qed

section \<open>The order of semantic versions\<close>

lemma bytesLess_irrefl: "\<not> bytesLess s s"
  by (induction s) auto

lemma bytesLess_trans: "bytesLess s t \<Longrightarrow> bytesLess t u \<Longrightarrow> bytesLess s u"
proof (induction s t arbitrary: u rule: bytesLess.induct)
  case (2 y ys)
  then show ?case by (cases u) auto
next
  case (4 x xs y ys)
  then show ?case by (cases u) auto
qed auto

lemma bytesLess_total: "\<not> bytesLess s t \<Longrightarrow> \<not> bytesLess t s \<Longrightarrow> s = t"
proof (induction s t rule: bytesLess.induct)
  case (4 x xs y ys)
  then show ?case by (auto simp: linorder_neq_iff[symmetric])
qed auto

lemma identLess_irrefl: "\<not> identLess a a"
  by (cases a) (auto simp: bytesLess_irrefl)

lemma identLess_trans: "identLess a b \<Longrightarrow> identLess b c \<Longrightarrow> identLess a c"
  by (cases a; cases b; cases c) (auto dest: bytesLess_trans)

lemma identLess_total: "\<not> identLess a b \<Longrightarrow> \<not> identLess b a \<Longrightarrow> a = b"
  by (cases a; cases b) (auto dest: bytesLess_total)

lemma identsLess_irrefl: "\<not> identsLess p p"
  by (induction p) (auto simp: identLess_irrefl)

lemma identsLess_trans: "identsLess p q \<Longrightarrow> identsLess q r \<Longrightarrow> identsLess p r"
proof (induction p q arbitrary: r rule: identsLess.induct)
  case (2 b bs)
  then show ?case by (cases r) auto
next
  case (4 a as b bs)
  then show ?case by (cases r) (auto dest: identLess_trans)
qed auto

lemma identsLess_total: "\<not> identsLess p q \<Longrightarrow> \<not> identsLess q p \<Longrightarrow> p = q"
proof (induction p q rule: identsLess.induct)
  case (4 a as b bs)
  then show ?case by (auto dest: identLess_total)
qed auto

lemma preLess_irrefl: "\<not> preLess p p"
  by (simp add: preLess_def identsLess_irrefl)

lemma preLess_trans: "preLess p q \<Longrightarrow> preLess q r \<Longrightarrow> preLess p r"
  by (auto simp: preLess_def split: if_splits dest: identsLess_trans)

lemma preLess_total: "\<not> preLess p q \<Longrightarrow> \<not> preLess q p \<Longrightarrow> p = q"
  by (auto simp: preLess_def split: if_splits dest: identsLess_total)

lemma semver_LessThan_irrefl: "\<not> semver_LessThan a a"
  by (simp add: semver_LessThan_def preLess_irrefl)

lemma semver_LessThan_trans:
  "semver_LessThan a b \<Longrightarrow> semver_LessThan b c \<Longrightarrow> semver_LessThan a c"
  unfolding semver_LessThan_def using preLess_trans[of "pre a" "pre b" "pre c"]
  by (elim disjE conjE) simp_all

lemma semver_LessThan_total:
  "\<not> semver_LessThan a b \<Longrightarrow> \<not> semver_LessThan b a \<Longrightarrow>
   major a = major b \<and> minor a = minor b \<and> patch a = patch b \<and> pre a = pre b"
  unfolding semver_LessThan_def using preLess_total[of "pre a" "pre b"]
  by (metis linorder_neqE_nat)

lemma four_names:
  "Semantify semver_NewVersion ''1.10beta2''
     = Inr \<lparr>major = 1, minor = 10, patch = 0, pre = [Alphanumeric ''beta2''], metadata = []\<rparr>"
  "Semantify semver_NewVersion ''1.19beta1''
     = Inr \<lparr>major = 1, minor = 19, patch = 0, pre = [Alphanumeric ''beta1''], metadata = []\<rparr>"
  "Semantify semver_NewVersion ''1.21rc4''
     = Inr \<lparr>major = 1, minor = 21, patch = 0, pre = [Alphanumeric ''rc4''], metadata = []\<rparr>"
  "Semantify semver_NewVersion ''1.21.0''
     = Inr \<lparr>major = 1, minor = 21, patch = 0, pre = [], metadata = []\<rparr>"
  "hyphenate ''1.10beta2'' = ''1.10-beta2''" "hyphenate ''1.21rc4'' = ''1.21-rc4''"
  "hyphenate ''1.21.0'' = ''1.21.0''"
  by code_simp+

lemma four_parse:
  "Semantify semver_NewVersion ''1.10beta2'' = Inr sv1_10beta2"
  "Semantify semver_NewVersion ''1.19beta1'' = Inr sv1_19beta1"
  "Semantify semver_NewVersion ''1.21rc4'' = Inr sv1_21rc4"
  "Semantify semver_NewVersion ''1.21.0'' = Inr sv1_21_0"
  by (simp_all add: four_names sv1_10beta2_def sv1_19beta1_def sv1_21rc4_def sv1_21_0_def)

lemma four_less:
  "semver_LessThan sv1_10beta2 sv1_19beta1" "semver_LessThan sv1_19beta1 sv1_21rc4"
  "semver_LessThan sv1_21rc4 sv1_21_0"
  by code_simp+

lemma New_sv: "New NewVersion vname ps = Inr v \<Longrightarrow> Semantify NewVersion vname = Inr (sv v)"
  by (auto simp: New_def split: sum.splits)

lemma Index_0_prefix: "Index s sub = 0 \<Longrightarrow> prefix sub s"
  by (cases s) (auto simp: Let_def split: if_splits)

lemma Index_prefix: "prefix sub s \<Longrightarrow> Index s sub = 0"
  by (cases s) auto

lemma Index_first:
  "s = pfx @ sub @ rest \<Longrightarrow> \<forall>i<length pfx. \<not> prefix sub (drop i s) \<Longrightarrow>
   Index s sub = int (length pfx)"
proof (induction pfx arbitrary: s)
  case Nil
  then show ?case by (simp add: Index_prefix)
next
  case (Cons c pfx)
  let ?cs = "pfx @ sub @ rest"
  from Cons.prems(1) have s: "s = c # ?cs" by simp
  from Cons.prems(2) have "\<not> prefix sub (drop 0 s)" by blast
  then have np: "\<not> prefix sub (c # ?cs)" by (simp add: s)
  have "\<forall>i<length pfx. \<not> prefix sub (drop i ?cs)"
  proof (intro allI impI)
    fix i
    assume "i < length pfx"
    then have "Suc i < length (c # pfx)" by simp
    with Cons.prems(2) have "\<not> prefix sub (drop (Suc i) s)" by blast
    then show "\<not> prefix sub (drop i ?cs)" by (simp add: s)
  qed
  from Cons.IH[OF refl this] have "Index ?cs sub = int (length pfx)" .
  with np show ?case by (simp add: s Let_def)
qed

lemma hyphenate_marker:
  assumes "n = pfx @ mk @ rest" and "\<forall>i<length pfx. \<not> prefix mk (drop i n)"
  shows "(if 0 < Index n mk then take (nat (Index n mk)) n @ ''-'' @ drop (nat (Index n mk)) n else n)
     = (if pfx = [] then n else pfx @ ''-'' @ mk @ rest)"
  using Index_first[OF assms] assms(1) by simp

lemma sublist_marker: "n = pfx @ mk @ rest \<Longrightarrow> sublist mk n"
  by (auto simp: sublist_def)

lemma hyphenate_alpha:
  assumes n: "n = pfx @ ''alpha'' @ rest" and f: "\<forall>i<length pfx. \<not> prefix ''alpha'' (drop i n)"
  shows "hyphenate n = (if pfx = [] then n else pfx @ ''-alpha'' @ rest)"
proof -
  have "Contains n ''alpha''"
    using sublist_marker[OF n] by (simp only: Contains_iff_sublist)
  then have "hyphenate n = (if 0 < Index n ''alpha''
      then take (nat (Index n ''alpha'')) n @ ''-'' @ drop (nat (Index n ''alpha'')) n else n)"
    by (simp only: hyphenate_def Let_def if_True)
  also have "\<dots> = (if pfx = [] then n else pfx @ ''-'' @ ''alpha'' @ rest)"
    by (rule hyphenate_marker[OF n f])
  finally show ?thesis by simp
qed

lemma hyphenate_beta:
  assumes a: "\<not> sublist ''alpha'' n"
    and n: "n = pfx @ ''beta'' @ rest" and f: "\<forall>i<length pfx. \<not> prefix ''beta'' (drop i n)"
  shows "hyphenate n = (if pfx = [] then n else pfx @ ''-beta'' @ rest)"
proof -
  have "\<not> Contains n ''alpha''" "Contains n ''beta''"
    using a sublist_marker[OF n] by (simp_all only: Contains_iff_sublist not_False_eq_True)
  then have "hyphenate n = (if 0 < Index n ''beta''
      then take (nat (Index n ''beta'')) n @ ''-'' @ drop (nat (Index n ''beta'')) n else n)"
    by (simp only: hyphenate_def Let_def if_True if_False)
  also have "\<dots> = (if pfx = [] then n else pfx @ ''-'' @ ''beta'' @ rest)"
    by (rule hyphenate_marker[OF n f])
  finally show ?thesis by simp
qed

lemma hyphenate_rc:
  assumes a: "\<not> sublist ''alpha'' n" and b: "\<not> sublist ''beta'' n"
    and n: "n = pfx @ ''rc'' @ rest" and f: "\<forall>i<length pfx. \<not> prefix ''rc'' (drop i n)"
  shows "hyphenate n = (if pfx = [] then n else pfx @ ''-rc'' @ rest)"
proof -
  have "\<not> Contains n ''alpha''" "\<not> Contains n ''beta''" "Contains n ''rc''"
    using a b sublist_marker[OF n] by (simp_all only: Contains_iff_sublist not_False_eq_True)
  then have "hyphenate n = (if 0 < Index n ''rc''
      then take (nat (Index n ''rc'')) n @ ''-'' @ drop (nat (Index n ''rc'')) n else n)"
    by (simp only: hyphenate_def Let_def if_True if_False)
  also have "\<dots> = (if pfx = [] then n else pfx @ ''-'' @ ''rc'' @ rest)"
    by (rule hyphenate_marker[OF n f])
  finally show ?thesis by simp
qed

lemma hyphenate_plain:
  "\<not> sublist ''alpha'' n \<Longrightarrow> \<not> sublist ''beta'' n \<Longrightarrow> \<not> sublist ''rc'' n \<Longrightarrow> hyphenate n = n"
  by (simp add: hyphenate_def Contains_iff_sublist)

lemma hyphenate_shape:
  assumes "sublist ''alpha'' n \<or> sublist ''beta'' n \<or> sublist ''rc'' n"
  shows "(hyphenate n = n \<and> n \<noteq> [] \<and> hd n \<in> {CHR ''a'', CHR ''b'', CHR ''r''})
       \<or> (CHR ''-'' \<in> set (hyphenate n) \<and> set (hyphenate n) = insert (CHR ''-'') (set n))"
proof -
  define mk where "mk = (if sublist ''alpha'' n then ''alpha''
                         else if sublist ''beta'' n then ''beta'' else ''rc'')"
  from assms have sub: "sublist mk n" and mk: "mk \<in> {''alpha'', ''beta'', ''rc''}"
    by (auto simp: mk_def)
  have h: "hyphenate n = (if 0 < Index n mk then take (nat (Index n mk)) n @ ''-'' @ drop (nat (Index n mk)) n else n)"
    using assms by (auto simp: hyphenate_def Contains_iff_sublist Let_def mk_def)
  from sub have nn: "0 \<le> Index n mk" by (simp add: Index_nonneg_iff)
  show ?thesis
  proof (cases "0 < Index n mk")
    case True
    have "set (take (nat (Index n mk)) n) \<union> set (drop (nat (Index n mk)) n) = set n"
      by (metis append_take_drop_id set_append)
    with True h show ?thesis by auto
  next
    case False
    with nn have "Index n mk = 0" by simp
    from Index_0_prefix[OF this] mk have "n \<noteq> [] \<and> hd n \<in> {CHR ''a'', CHR ''b'', CHR ''r''}"
      by (auto simp: prefix_def)
    with False h show ?thesis by simp
  qed
qed

lemma breakAt_notin: "c \<notin> set s \<Longrightarrow> breakAt c s = (s, None)"
  by (induction s) auto

lemma breakAt_in: "c \<in> set s \<Longrightarrow> \<exists>a b. breakAt c s = (a, Some b)"
  by (induction s) (auto split: prod.splits)

lemma breakAt_fst_subset: "breakAt c s = (a, r) \<Longrightarrow> set a \<subseteq> set s"
  by (induction s arbitrary: a r) (auto split: if_splits prod.splits)

lemma breakAt_hd: "breakAt c s = (a, r) \<Longrightarrow> a \<noteq> [] \<Longrightarrow> s \<noteq> [] \<and> hd a = hd s"
  by (cases s) (auto split: if_splits prod.splits)

lemma Split_nonempty: "Split s c \<noteq> []"
  by (induction s) (auto split: list.splits)

lemma allSome_length: "allSome xs = Some ys \<Longrightarrow> length ys = length xs"
  by (induction xs arbitrary: ys rule: allSome.induct) auto

lemma core_head:
  "allSome (map parseUint (Split core (CHR ''.''))) = Some ns \<Longrightarrow> core \<noteq> [] \<and> isDigit (hd core)"
proof (cases core)
  case Nil
  assume "allSome (map parseUint (Split core (CHR ''.''))) = Some ns"
  with Nil show ?thesis by (simp add: parseUint_def)
next
  case (Cons c cs)
  assume a: "allSome (map parseUint (Split core (CHR ''.''))) = Some ns"
  obtain w ws where sp: "Split cs (CHR ''.'') = w # ws"
    using Split_nonempty[of cs "CHR ''.''"] by (cases "Split cs (CHR ''.'')") auto
  show ?thesis
  proof (cases "c = CHR ''.''")
    case True
    with a Cons show ?thesis by (simp add: parseUint_def)
  next
    case False
    with a Cons sp have "parseUint (c # w) \<noteq> None"
      by (cases "parseUint (c # w)") auto
    then have "isDigit c" by (auto simp: parseUint_def split: if_splits)
    with Cons show ?thesis by simp
  qed
qed

lemma semver_NewVersion_SomeD:
  "semver_NewVersion s = Some v \<Longrightarrow>
   \<exists>s2 meta core prerel ns.
     breakAt (CHR ''+'') (if HasPrefix s ''v'' then drop 1 s else s) = (s2, meta)
     \<and> breakAt (CHR ''-'') s2 = (core, prerel)
     \<and> allSome (map parseUint (Split core (CHR ''.''))) = Some ns
     \<and> ((prerel = None \<and> pre v = [])
        \<or> (\<exists>p. prerel = Some p \<and> allSome (map parseIdent (Split p (CHR ''.''))) = Some (pre v)))"
  by (auto simp: semver_NewVersion_def Let_def split: prod.splits option.splits if_splits)

lemma semver_pre_nonempty:
  assumes "semver_NewVersion s = Some v" and "CHR ''+'' \<notin> set s" and "CHR ''-'' \<in> set s"
  shows "pre v \<noteq> []"
proof -
  let ?s1 = "if HasPrefix s ''v'' then drop 1 s else s"
  from semver_NewVersion_SomeD[OF assms(1)] obtain s2 meta core prerel ns where
    b1: "breakAt (CHR ''+'') ?s1 = (s2, meta)"
    and b2: "breakAt (CHR ''-'') s2 = (core, prerel)"
    and ids: "(prerel = None \<and> pre v = [])
        \<or> (\<exists>p. prerel = Some p \<and> allSome (map parseIdent (Split p (CHR ''.''))) = Some (pre v))"
    by blast
  have "CHR ''+'' \<notin> set ?s1"
    using assms(2) by (auto dest: in_set_dropD)
  from breakAt_notin[OF this] b1 have s2: "s2 = ?s1" by simp
  have "CHR ''-'' \<in> set ?s1"
    using assms(3) by (cases s) (auto simp: HasPrefix_def)
  from breakAt_in[OF this] b2 s2 obtain q where "prerel = Some q" by auto
  with ids have "allSome (map parseIdent (Split q (CHR ''.''))) = Some (pre v)" by simp
  from allSome_length[OF this] Split_nonempty[of q "CHR ''.''"] show ?thesis by auto
qed

lemma semver_pre_empty:
  assumes "semver_NewVersion s = Some v" and "CHR ''-'' \<notin> set s"
  shows "pre v = []"
proof -
  let ?s1 = "if HasPrefix s ''v'' then drop 1 s else s"
  from semver_NewVersion_SomeD[OF assms(1)] obtain s2 meta core prerel ns where
    b1: "breakAt (CHR ''+'') ?s1 = (s2, meta)"
    and b2: "breakAt (CHR ''-'') s2 = (core, prerel)"
    and ids: "(prerel = None \<and> pre v = [])
        \<or> (\<exists>p. prerel = Some p \<and> allSome (map parseIdent (Split p (CHR ''.''))) = Some (pre v))"
    by blast
  have "CHR ''-'' \<notin> set ?s1"
    using assms(2) by (auto dest: in_set_dropD)
  with breakAt_fst_subset[OF b1] have "CHR ''-'' \<notin> set s2" by auto
  from breakAt_notin[OF this] b2 have "prerel = None" by simp
  with ids show ?thesis by simp
qed

lemma semver_head:
  assumes "semver_NewVersion s = Some v"
  shows "s \<noteq> [] \<and> (isDigit (hd s) \<or> hd s = CHR ''v'')"
proof -
  let ?s1 = "if HasPrefix s ''v'' then drop 1 s else s"
  from semver_NewVersion_SomeD[OF assms(1)] obtain s2 meta core prerel ns where
    b1: "breakAt (CHR ''+'') ?s1 = (s2, meta)"
    and b2: "breakAt (CHR ''-'') s2 = (core, prerel)"
    and nums: "allSome (map parseUint (Split core (CHR ''.''))) = Some ns"
    by blast
  from core_head[OF nums] have c: "core \<noteq> []" "isDigit (hd core)" by simp_all
  from breakAt_hd[OF b2 c(1)] have s2: "s2 \<noteq> []" "hd core = hd s2" by simp_all
  from breakAt_hd[OF b1 s2(1)] have s1: "?s1 \<noteq> []" "hd s2 = hd ?s1" by simp_all
  show ?thesis
  proof (cases "HasPrefix s ''v''")
    case True
    then show ?thesis by (cases s) (auto simp: HasPrefix_def)
  next
    case False
    with s1 s2 c show ?thesis by simp
  qed
qed

lemma not_digit_marker: "\<not> isDigit (CHR ''a'')" "\<not> isDigit (CHR ''b'')" "\<not> isDigit (CHR ''r'')"
  by code_simp+

lemma Semantify_SomeD:
  "Semantify NewVersion vname = Inr v \<Longrightarrow> NewVersion (hyphenate vname) = Some v"
  by (auto simp: Semantify_def split: option.splits)

lemma Semantify_prerelease:
  assumes "Semantify semver_NewVersion n = Inr v" and "CHR ''+'' \<notin> set n"
    and "sublist ''alpha'' n \<or> sublist ''beta'' n \<or> sublist ''rc'' n"
  shows "pre v \<noteq> []"
proof -
  note p = Semantify_SomeD[OF assms(1)]
  from hyphenate_shape[OF assms(3)] show ?thesis
  proof
    assume "hyphenate n = n \<and> n \<noteq> [] \<and> hd n \<in> {CHR ''a'', CHR ''b'', CHR ''r''}"
    with semver_head[OF p] not_digit_marker show ?thesis by auto
  next
    assume "CHR ''-'' \<in> set (hyphenate n) \<and> set (hyphenate n) = insert (CHR ''-'') (set n)"
    with assms(2) semver_pre_nonempty[OF p] show ?thesis by auto
  qed
qed

lemma Semantify_release:
  assumes "Semantify semver_NewVersion n = Inr v" and "CHR ''-'' \<notin> set n"
    and "\<not> sublist ''alpha'' n" and "\<not> sublist ''beta'' n" and "\<not> sublist ''rc'' n"
  shows "pre v = []"
  using Semantify_SomeD[OF assms(1)] assms(2) hyphenate_plain[OF assms(3-5)]
  by (simp add: semver_pre_empty)

lemma prerelease_below:
  "major a = major b \<and> minor a = minor b \<and> patch a = patch b \<and> pre a \<noteq> [] \<and> pre b = []
   \<Longrightarrow> semver_LessThan a b \<and> \<not> semver_LessThan b a"
  by (simp add: semver_LessThan_def preLess_def)

lemma five_names:
  "hyphenate ''1.5alpha1'' = ''1.5-alpha1''" "hyphenate ''1.9beta2rc1'' = ''1.9-beta2rc1''"
  by code_simp+

text \<open>
  C8. \<open>Semantify\<close> hands the semver library the name with a hyphen put in: before the
  first \<open>alpha\<close> if the name contains \<open>alpha\<close>, else before the first \<open>beta\<close> if it
  contains \<open>beta\<close>, else before the first \<open>rc\<close> if it contains \<open>rc\<close>, and in each case
  only when that substring does not start the name; a name with none of the three is
  handed over as it is. So \<open>1.21rc4\<close> becomes \<open>1.21-rc4\<close>, and the four names
  \<open>1.10beta2\<close>, \<open>1.19beta1\<close>, \<open>1.21rc4\<close> and \<open>1.21.0\<close> parse to versions that stand in
  this order in a collection, each below all that follow. A name without a plus sign that
  contains one of the three substrings parses, if at all, to a version with a prerelease,
  and a name without a hyphen and without any of the three to a version with none; so
  when two such names agree in the three numbers, the first is below the second. The
  order is that of semantic-version precedence: a prerelease is below the release of the
  same numbers, and the order is irreflexive, transitive, and undecided only between
  versions that agree in the three numbers and the prerelease.
\<close>

theorem Semantify_order:
  "(n = pfx @ ''alpha'' @ rest \<and> (\<forall>i<length pfx. \<not> prefix ''alpha'' (drop i n))
      \<longrightarrow> hyphenate n = (if pfx = [] then n else pfx @ ''-alpha'' @ rest))
   \<and> (\<not> sublist ''alpha'' n \<and> n = pfx @ ''beta'' @ rest
        \<and> (\<forall>i<length pfx. \<not> prefix ''beta'' (drop i n))
      \<longrightarrow> hyphenate n = (if pfx = [] then n else pfx @ ''-beta'' @ rest))
   \<and> (\<not> sublist ''alpha'' n \<and> \<not> sublist ''beta'' n \<and> n = pfx @ ''rc'' @ rest
        \<and> (\<forall>i<length pfx. \<not> prefix ''rc'' (drop i n))
      \<longrightarrow> hyphenate n = (if pfx = [] then n else pfx @ ''-rc'' @ rest))
   \<and> (\<not> sublist ''alpha'' n \<and> \<not> sublist ''beta'' n \<and> \<not> sublist ''rc'' n \<longrightarrow> hyphenate n = n)
   \<and> Semantify NewVersion n =
       (case NewVersion (hyphenate n) of
          None \<Rightarrow> Inl (MalformedVersionError (hyphenate n))
        | Some v \<Rightarrow> Inr v)
   \<and> hyphenate ''1.10beta2'' = ''1.10-beta2'' \<and> hyphenate ''1.21rc4'' = ''1.21-rc4''
   \<and> hyphenate ''1.21.0'' = ''1.21.0'' \<and> hyphenate ''1.5alpha1'' = ''1.5-alpha1''
   \<and> hyphenate ''1.9beta2rc1'' = ''1.9-beta2rc1''
   \<and> Semantify semver_NewVersion ''1.10beta2''
       = Inr \<lparr>major = 1, minor = 10, patch = 0, pre = [Alphanumeric ''beta2''], metadata = []\<rparr>
   \<and> Semantify semver_NewVersion ''1.19beta1''
       = Inr \<lparr>major = 1, minor = 19, patch = 0, pre = [Alphanumeric ''beta1''], metadata = []\<rparr>
   \<and> Semantify semver_NewVersion ''1.21rc4''
       = Inr \<lparr>major = 1, minor = 21, patch = 0, pre = [Alphanumeric ''rc4''], metadata = []\<rparr>
   \<and> Semantify semver_NewVersion ''1.21.0''
       = Inr \<lparr>major = 1, minor = 21, patch = 0, pre = [], metadata = []\<rparr>
   \<and> (New semver_NewVersion ''1.10beta2'' psa = Inr va
        \<and> New semver_NewVersion ''1.19beta1'' psb = Inr vb
        \<and> New semver_NewVersion ''1.21rc4'' psc = Inr vc
        \<and> New semver_NewVersion ''1.21.0'' psd = Inr vd
        \<longrightarrow> Less [va, vb, vc, vd] 0 1 \<and> Less [va, vb, vc, vd] 1 2 \<and> Less [va, vb, vc, vd] 2 3
          \<and> Less [va, vb, vc, vd] 0 2 \<and> Less [va, vb, vc, vd] 0 3 \<and> Less [va, vb, vc, vd] 1 3)
   \<and> (Semantify semver_NewVersion na = Inr a \<and> Semantify semver_NewVersion nb = Inr b
        \<and> CHR ''+'' \<notin> set na
        \<and> (sublist ''alpha'' na \<or> sublist ''beta'' na \<or> sublist ''rc'' na)
        \<and> CHR ''-'' \<notin> set nb
        \<and> \<not> sublist ''alpha'' nb \<and> \<not> sublist ''beta'' nb \<and> \<not> sublist ''rc'' nb
        \<and> major a = major b \<and> minor a = minor b \<and> patch a = patch b
        \<longrightarrow> pre a \<noteq> [] \<and> pre b = [] \<and> semver_LessThan a b \<and> \<not> semver_LessThan b a)
   \<and> (major x = major y \<and> minor x = minor y \<and> patch x = patch y \<and> pre x \<noteq> [] \<and> pre y = []
        \<longrightarrow> semver_LessThan x y \<and> \<not> semver_LessThan y x)
   \<and> \<not> semver_LessThan x x
   \<and> (semver_LessThan x y \<and> semver_LessThan y z \<longrightarrow> semver_LessThan x z)
   \<and> (\<not> semver_LessThan x y \<and> \<not> semver_LessThan y x
        \<longrightarrow> major x = major y \<and> minor x = minor y \<and> patch x = patch y \<and> pre x = pre y)"
proof -
  have chain: "Less [va, vb, vc, vd] 0 1 \<and> Less [va, vb, vc, vd] 1 2 \<and> Less [va, vb, vc, vd] 2 3
          \<and> Less [va, vb, vc, vd] 0 2 \<and> Less [va, vb, vc, vd] 0 3 \<and> Less [va, vb, vc, vd] 1 3"
    if n: "New semver_NewVersion ''1.10beta2'' psa = Inr va
        \<and> New semver_NewVersion ''1.19beta1'' psb = Inr vb
        \<and> New semver_NewVersion ''1.21rc4'' psc = Inr vc
        \<and> New semver_NewVersion ''1.21.0'' psd = Inr vd"
  proof -
    from n have s: "sv va = sv1_10beta2" "sv vb = sv1_19beta1" "sv vc = sv1_21rc4" "sv vd = sv1_21_0"
      using New_sv[of semver_NewVersion] four_parse by (metis sum.inject(2))+
    note l = four_less
    have l02: "semver_LessThan sv1_10beta2 sv1_21rc4"
      using semver_LessThan_trans[OF l(1) l(2)] .
    have l13: "semver_LessThan sv1_19beta1 sv1_21_0"
      using semver_LessThan_trans[OF l(2) l(3)] .
    have l03: "semver_LessThan sv1_10beta2 sv1_21_0"
      using semver_LessThan_trans[OF l02 l(3)] .
    show ?thesis
      by (simp add: Less_def s l l02 l13 l03)
  qed
  have h1: "n = pfx @ ''alpha'' @ rest \<and> (\<forall>i<length pfx. \<not> prefix ''alpha'' (drop i n))
      \<longrightarrow> hyphenate n = (if pfx = [] then n else pfx @ ''-alpha'' @ rest)"
    using hyphenate_alpha[of n pfx rest] by blast
  have h2: "\<not> sublist ''alpha'' n \<and> n = pfx @ ''beta'' @ rest
        \<and> (\<forall>i<length pfx. \<not> prefix ''beta'' (drop i n))
      \<longrightarrow> hyphenate n = (if pfx = [] then n else pfx @ ''-beta'' @ rest)"
    using hyphenate_beta[of n pfx rest] by blast
  have h3: "\<not> sublist ''alpha'' n \<and> \<not> sublist ''beta'' n \<and> n = pfx @ ''rc'' @ rest
        \<and> (\<forall>i<length pfx. \<not> prefix ''rc'' (drop i n))
      \<longrightarrow> hyphenate n = (if pfx = [] then n else pfx @ ''-rc'' @ rest)"
    using hyphenate_rc[of n pfx rest] by blast
  have h4: "\<not> sublist ''alpha'' n \<and> \<not> sublist ''beta'' n \<and> \<not> sublist ''rc'' n \<longrightarrow> hyphenate n = n"
    using hyphenate_plain[of n] by blast
  have h5: "Semantify NewVersion n =
       (case NewVersion (hyphenate n) of
          None \<Rightarrow> Inl (MalformedVersionError (hyphenate n))
        | Some v \<Rightarrow> Inr v)"
    by (simp add: Semantify_def)
  have link: "pre a \<noteq> [] \<and> pre b = [] \<and> semver_LessThan a b \<and> \<not> semver_LessThan b a"
    if "Semantify semver_NewVersion na = Inr a \<and> Semantify semver_NewVersion nb = Inr b
        \<and> CHR ''+'' \<notin> set na
        \<and> (sublist ''alpha'' na \<or> sublist ''beta'' na \<or> sublist ''rc'' na)
        \<and> CHR ''-'' \<notin> set nb
        \<and> \<not> sublist ''alpha'' nb \<and> \<not> sublist ''beta'' nb \<and> \<not> sublist ''rc'' nb
        \<and> major a = major b \<and> minor a = minor b \<and> patch a = patch b"
  proof -
    from that have pa: "pre a \<noteq> []"
      using Semantify_prerelease[of na a] by blast
    from that have pb: "pre b = []"
      using Semantify_release[of nb b] by blast
    from that pa pb prerelease_below[of a b] show ?thesis by blast
  qed
  have below: "major x = major y \<and> minor x = minor y \<and> patch x = patch y \<and> pre x \<noteq> [] \<and> pre y = []
        \<longrightarrow> semver_LessThan x y \<and> \<not> semver_LessThan y x"
    using prerelease_below[of x y] by blast
  have ord: "\<not> semver_LessThan x x
   \<and> (semver_LessThan x y \<and> semver_LessThan y z \<longrightarrow> semver_LessThan x z)
   \<and> (\<not> semver_LessThan x y \<and> \<not> semver_LessThan y x
        \<longrightarrow> major x = major y \<and> minor x = minor y \<and> patch x = patch y \<and> pre x = pre y)"
    using semver_LessThan_irrefl[of x] semver_LessThan_trans[of x y z] semver_LessThan_total[of x y]
    by blast
  from chain have chain': "New semver_NewVersion ''1.10beta2'' psa = Inr va
        \<and> New semver_NewVersion ''1.19beta1'' psb = Inr vb
        \<and> New semver_NewVersion ''1.21rc4'' psc = Inr vc
        \<and> New semver_NewVersion ''1.21.0'' psd = Inr vd
        \<longrightarrow> Less [va, vb, vc, vd] 0 1 \<and> Less [va, vb, vc, vd] 1 2 \<and> Less [va, vb, vc, vd] 2 3
          \<and> Less [va, vb, vc, vd] 0 2 \<and> Less [va, vb, vc, vd] 0 3 \<and> Less [va, vb, vc, vd] 1 3"
    by blast
  from link have link': "Semantify semver_NewVersion na = Inr a \<and> Semantify semver_NewVersion nb = Inr b
        \<and> CHR ''+'' \<notin> set na
        \<and> (sublist ''alpha'' na \<or> sublist ''beta'' na \<or> sublist ''rc'' na)
        \<and> CHR ''-'' \<notin> set nb
        \<and> \<not> sublist ''alpha'' nb \<and> \<not> sublist ''beta'' nb \<and> \<not> sublist ''rc'' nb
        \<and> major a = major b \<and> minor a = minor b \<and> patch a = patch b
        \<longrightarrow> pre a \<noteq> [] \<and> pre b = [] \<and> semver_LessThan a b \<and> \<not> semver_LessThan b a"
    by blast
  note ex = four_names(5,6,7) five_names four_names(1,2,3,4)
  show ?thesis
    by (intro conjI h1 h2 h3 h4 h5 ex chain' link' below ord[THEN conjunct1]
        ord[THEN conjunct2, THEN conjunct1] ord[THEN conjunct2, THEN conjunct2])
qed

lemma rc4_facts:
  "Contains ''1.21rc4'' ''rc''" "\<not> Contains ''1.21rc4'' ''alpha''" "\<not> Contains ''1.21rc4'' ''beta''"
  "\<not> Contains ''1.21.0'' ''rc''" "\<not> Contains ''1.21.0'' ''alpha''" "\<not> Contains ''1.21.0'' ''beta''"
  "\<not> Contains ''1.9beta2rc1'' ''alpha''"
  "\<forall>i<length ''1.21''. \<not> prefix ''rc'' (drop i ''1.21rc4'')"
  "\<forall>i<length ''1.5''. \<not> prefix ''alpha'' (drop i ''1.5alpha1'')"
  "\<forall>i<length ''1.9''. \<not> prefix ''beta'' (drop i ''1.9beta2rc1'')"
  "CHR ''+'' \<notin> set ''1.21rc4''" "CHR ''-'' \<notin> set ''1.21.0''"
  by code_simp+

theorem Semantify_order_witness:
  "hyphenate ''1.5alpha1'' = ''1.5-alpha1''
   \<and> hyphenate ''1.9beta2rc1'' = ''1.9-beta2rc1''
   \<and> hyphenate ''1.21rc4'' = ''1.21-rc4''
   \<and> hyphenate ''1.21.0'' = ''1.21.0''
   \<and> New semver_NewVersion ''1.10beta2'' [] = Inr \<lparr>name = ''1.10beta2'', sv = sv1_10beta2, pkgs = []\<rparr>
   \<and> Less [\<lparr>name = ''1.10beta2'', sv = sv1_10beta2, pkgs = []\<rparr>,
           \<lparr>name = ''1.19beta1'', sv = sv1_19beta1, pkgs = []\<rparr>,
           \<lparr>name = ''1.21rc4'', sv = sv1_21rc4, pkgs = []\<rparr>,
           \<lparr>name = ''1.21.0'', sv = sv1_21_0, pkgs = []\<rparr>] 0 3
   \<and> Semantify semver_NewVersion ''1.21rc4'' = Inr sv1_21rc4
   \<and> Semantify semver_NewVersion ''1.21.0'' = Inr sv1_21_0
   \<and> sublist ''rc'' ''1.21rc4'' \<and> \<not> sublist ''rc'' ''1.21.0''
   \<and> pre sv1_21rc4 \<noteq> [] \<and> pre sv1_21_0 = []
   \<and> semver_LessThan sv1_21rc4 sv1_21_0 \<and> \<not> semver_LessThan sv1_21_0 sv1_21rc4
   \<and> semver_LessThan sv1_10beta2 sv1_21rc4"
proof -
  let ?v1 = "\<lparr>name = ''1.10beta2'', sv = sv1_10beta2, pkgs = []\<rparr>"
  let ?v2 = "\<lparr>name = ''1.19beta1'', sv = sv1_19beta1, pkgs = []\<rparr>"
  let ?v3 = "\<lparr>name = ''1.21rc4'', sv = sv1_21rc4, pkgs = []\<rparr>"
  let ?v4 = "\<lparr>name = ''1.21.0'', sv = sv1_21_0, pkgs = []\<rparr>"
  note sub = rc4_facts(1-7)[unfolded Contains_iff_sublist]
  have w1: "hyphenate ''1.5alpha1'' = ''1.5-alpha1''"
    using Semantify_order[where n = "''1.5alpha1''" and pfx = "''1.5''" and rest = "''1''",
        THEN conjunct1] rc4_facts(9)
    by simp
  have w2: "hyphenate ''1.9beta2rc1'' = ''1.9-beta2rc1''"
    using Semantify_order[where n = "''1.9beta2rc1''" and pfx = "''1.9''" and rest = "''2rc1''",
        THEN conjunct2, THEN conjunct1] rc4_facts(10) sub(7)
    by simp
  have w3: "hyphenate ''1.21rc4'' = ''1.21-rc4''"
    using Semantify_order[where n = "''1.21rc4''" and pfx = "''1.21''" and rest = "''4''",
        THEN conjunct2, THEN conjunct2, THEN conjunct1] rc4_facts(8) sub(2,3)
    by simp
  have w4: "hyphenate ''1.21.0'' = ''1.21.0''"
    using Semantify_order[where n = "''1.21.0''",
        THEN conjunct2, THEN conjunct2, THEN conjunct2, THEN conjunct1] sub(4,5,6)
    by simp
  have n: "New semver_NewVersion ''1.10beta2'' [] = Inr ?v1
        \<and> New semver_NewVersion ''1.19beta1'' [] = Inr ?v2
        \<and> New semver_NewVersion ''1.21rc4'' [] = Inr ?v3
        \<and> New semver_NewVersion ''1.21.0'' [] = Inr ?v4"
    by (simp add: New_def four_parse)
  note rest14 = Semantify_order[where psa = "[]" and psb = "[]" and psc = "[]" and psd = "[]"
        and va = ?v1 and vb = ?v2 and vc = ?v3 and vd = ?v4
        and na = "''1.21rc4''" and nb = "''1.21.0''" and a = sv1_21rc4 and b = sv1_21_0
        and x = sv1_10beta2 and y = sv1_19beta1 and z = sv1_21rc4,
        THEN conjunct2, THEN conjunct2, THEN conjunct2, THEN conjunct2, THEN conjunct2,
        THEN conjunct2, THEN conjunct2, THEN conjunct2, THEN conjunct2, THEN conjunct2,
        THEN conjunct2, THEN conjunct2, THEN conjunct2, THEN conjunct2]
  have a: "Less [?v1, ?v2, ?v3, ?v4] 0 3"
    using rest14[THEN conjunct1] n by blast
  have h: "Semantify semver_NewVersion ''1.21rc4'' = Inr sv1_21rc4
      \<and> Semantify semver_NewVersion ''1.21.0'' = Inr sv1_21_0
      \<and> major sv1_21rc4 = major sv1_21_0 \<and> minor sv1_21rc4 = minor sv1_21_0
      \<and> patch sv1_21rc4 = patch sv1_21_0"
    by (simp add: four_parse sv1_21rc4_def sv1_21_0_def)
  have b: "pre sv1_21rc4 \<noteq> [] \<and> pre sv1_21_0 = []
      \<and> semver_LessThan sv1_21rc4 sv1_21_0 \<and> \<not> semver_LessThan sv1_21_0 sv1_21rc4"
    using rest14[THEN conjunct2, THEN conjunct1] h sub(1,4,5,6) rc4_facts(11,12)
    by blast
  have c: "semver_LessThan sv1_10beta2 sv1_21rc4"
    using rest14[THEN conjunct2, THEN conjunct2, THEN conjunct2, THEN conjunct2, THEN conjunct1]
      four_less
    by blast
  from w1 w2 w3 w4 n a h b c sub(1,4) show ?thesis by blast
qed

end
